theory Spec2Isabelle
  imports Complex_Main "HOL-Library.AList" "HOL-Library.Product_Lexorder" "HOL-Library.Multiset"
begin

section \<open>Data model (application/models.py)\<close>

text \<open>
  Python floats are idealised as exact reals throughout: \<open>+\<close>, \<open>-\<close>, \<open>*\<close>, \<open>/\<close>, \<open>min\<close>,
  \<open>abs\<close> and the comparisons are the real ones, the literal \<open>0.1\<close> is the real \<open>1/10\<close>,
  and \<open>round(x, 1)\<close> is rounding to the nearest multiple of \<open>1/10\<close> with ties going to
  the even multiple (Python rounds half to even).
\<close>

datatype PowerPlantType = GASFIRED | TURBOJET | WINDTURBINE

record Fuels =
  gas_euro_per_mwh :: real
  kerosine_euro_per_mwh :: real
  co2_euro_per_ton :: real
  wind_percentage :: real

record PowerPlant =
  name :: string
  type :: PowerPlantType
  efficiency :: real
  pmin :: real
  pmax :: real

text \<open>
  \<open>ProductionPlanRequest\<close>; \<open>ProductionPlanCalculator.__init__\<close> copies exactly these three
  fields into \<open>self\<close>, so the calculator object is the same record.
\<close>

record ProductionPlanRequest =
  load :: real
  fuels :: Fuels
  powerplants :: "PowerPlant list"

text \<open>
  \<open>PowerPlantOutput\<close> has the fields \<open>name\<close> and \<open>p\<close>; they are called \<open>out_name\<close> and
  \<open>out_p\<close> here, since \<open>name\<close> is already the field of \<open>PowerPlant\<close>.
\<close>

record PowerPlantOutput =
  out_name :: string
  out_p :: real

text \<open>The constraints that pydantic enforces when the request objects are constructed.\<close>

definition valid_fuels :: "Fuels \<Rightarrow> bool" where
  "valid_fuels f \<longleftrightarrow> 0 \<le> wind_percentage f \<and> wind_percentage f \<le> 100"

definition valid_plant :: "PowerPlant \<Rightarrow> bool" where
  "valid_plant pl \<longleftrightarrow>
     0 < efficiency pl \<and> efficiency pl \<le> 1 \<and> 0 \<le> pmin pl \<and> 0 < pmax pl \<and> \<not> pmax pl < pmin pl"

definition valid_request :: "ProductionPlanRequest \<Rightarrow> bool" where
  "valid_request r \<longleftrightarrow>
     0 < load r \<and> valid_fuels (fuels r) \<and> powerplants r \<noteq> [] \<and> list_all valid_plant (powerplants r)"

section \<open>Errors and rounding\<close>

datatype error =
    UnknownPowerPlantType PowerPlantType
  | ZeroDivisionError
  | KeyError string
  | LoadNotMet real real
  | ValidationError

text \<open>
  \<open>LoadNotMet required allocated\<close> is the \<open>ValueError\<close> "Cannot meet load requirement"
  of \<open>_allocate_power\<close>; \<open>ValidationError\<close> is what \<open>PowerPlantOutput\<close> raises for \<open>p < 0\<close>.
\<close>

definition round_half_even :: "real \<Rightarrow> int" where
  "round_half_even y =
     (let f = \<lfloor>y\<rfloor>; d = y - of_int f
      in if d < 1 / 2 then f
         else if 1 / 2 < d then f + 1
         else if even f then f else f + 1)"

definition py_round1 :: "real \<Rightarrow> real" where
  "py_round1 x = of_int (round_half_even (x * 10)) / 10"

definition PowerPlantOutput_new :: "string \<Rightarrow> real \<Rightarrow> error + PowerPlantOutput" where
  "PowerPlantOutput_new n v =
     (if v < 0 then Inl ValidationError
      else Inr \<lparr>out_name = n, out_p = py_round1 v\<rparr>)"

section \<open>Cost model (application/calculator.py)\<close>

definition CO2_EMISSIONS_PER_MWH :: real where
  "CO2_EMISSIONS_PER_MWH = 0.3"

record PowerPlantWithCost =
  plant :: PowerPlant
  cost_per_mwh :: real
  actual_pmax :: real

definition calculate_cost_per_mwh :: "ProductionPlanRequest \<Rightarrow> PowerPlant \<Rightarrow> error + real" where
  "calculate_cost_per_mwh self pl =
     (if type pl = WINDTURBINE then Inr 0
      else
        case (if type pl = GASFIRED then Inr (gas_euro_per_mwh (fuels self))
              else if type pl = TURBOJET then Inr (kerosine_euro_per_mwh (fuels self))
              else Inl (UnknownPowerPlantType (type pl))) of
          Inl e \<Rightarrow> Inl e
        | Inr fuel_cost \<Rightarrow>
            if efficiency pl = 0 then Inl ZeroDivisionError
            else
              let cost = fuel_cost / efficiency pl;
                  co2_cost = co2_euro_per_ton (fuels self) * CO2_EMISSIONS_PER_MWH / efficiency pl
              in Inr (cost + co2_cost))"

definition get_actual_pmax :: "ProductionPlanRequest \<Rightarrow> PowerPlant \<Rightarrow> real" where
  "get_actual_pmax self pl =
     (if type pl = WINDTURBINE then pmax pl * (wind_percentage (fuels self) / 100.0)
      else pmax pl)"

text \<open>The loop of \<open>calculate_production_plan\<close> that builds \<open>plants_with_cost\<close>.\<close>

fun build_plants_with_cost ::
  "ProductionPlanRequest \<Rightarrow> PowerPlant list \<Rightarrow> error + PowerPlantWithCost list" where
  "build_plants_with_cost self [] = Inr []"
| "build_plants_with_cost self (pl # pls) =
     (case calculate_cost_per_mwh self pl of
        Inl e \<Rightarrow> Inl e
      | Inr cost \<Rightarrow>
          (case build_plants_with_cost self pls of
             Inl e \<Rightarrow> Inl e
           | Inr rest \<Rightarrow>
               Inr (\<lparr>plant = pl, cost_per_mwh = cost, actual_pmax = get_actual_pmax self pl\<rparr> # rest)))"

section \<open>Merit order\<close>

text \<open>
  \<open>plants_with_cost.sort(key=lambda p: (p.cost_per_mwh, -p.actual_pmax))\<close>: Python's
  sort is stable and compares the key tuples lexicographically; \<open>sort_key\<close> is the stable
  insertion sort of the library, and pairs carry the lexicographic order.
\<close>

definition merit_key :: "PowerPlantWithCost \<Rightarrow> real \<times> real" where
  "merit_key pwc = (cost_per_mwh pwc, - actual_pmax pwc)"

definition merit_order :: "PowerPlantWithCost list \<Rightarrow> PowerPlantWithCost list" where
  "merit_order plants_with_cost = sort_key merit_key plants_with_cost"

section \<open>Allocation\<close>

text \<open>
  The \<open>allocation\<close> dictionary is an association list in insertion order:
  \<open>allocation[k] = v\<close> is \<open>AList.update k v\<close> (an existing key keeps its place, a new key
  goes to the end), \<open>allocation[k]\<close> raises \<open>KeyError\<close> on a missing key,
  \<open>allocation.get(k, 0.0)\<close> defaults to 0 and \<open>allocation.values()\<close> is \<open>map snd\<close>.
\<close>

type_synonym allocation = "(string \<times> real) list"

definition dict_get :: "allocation \<Rightarrow> string \<Rightarrow> real \<Rightarrow> real" where
  "dict_get allocation k d = (case map_of allocation k of None \<Rightarrow> d | Some v \<Rightarrow> v)"

text \<open>The body of the first loop of \<open>_allocate_power\<close>, on the pair (allocation, remaining load).\<close>

definition first_pass_step :: "allocation \<times> real \<Rightarrow> PowerPlantWithCost \<Rightarrow> allocation \<times> real" where
  "first_pass_step st pwc =
     (case st of (allocation, remaining_load) \<Rightarrow>
        if remaining_load \<le> 0.1 then (AList.update (name (plant pwc)) 0 allocation, remaining_load)
        else
          let available_power = min (actual_pmax pwc) remaining_load
          in if pmin (plant pwc) \<le> available_power
             then
               let allocated = py_round1 available_power
               in (AList.update (name (plant pwc)) allocated allocation, remaining_load - allocated)
             else (AList.update (name (plant pwc)) 0 allocation, remaining_load))"

definition first_pass :: "ProductionPlanRequest \<Rightarrow> PowerPlantWithCost list \<Rightarrow> allocation \<times> real" where
  "first_pass self plants_with_cost = foldl first_pass_step ([], load self) plants_with_cost"

text \<open>
  The loop of \<open>_adjust_allocation\<close> over the plants still to visit; \<open>break\<close> returns the
  allocation as it stands.
\<close>

fun adjust_loop :: "PowerPlantWithCost list \<Rightarrow> allocation \<Rightarrow> real \<Rightarrow> error + allocation" where
  "adjust_loop [] allocation remaining_load = Inr allocation"
| "adjust_loop (pwc # rest) allocation remaining_load =
     (if \<bar>remaining_load\<bar> \<le> 0.1 then Inr allocation
      else
        case map_of allocation (name (plant pwc)) of
          None \<Rightarrow> Inl (KeyError (name (plant pwc)))
        | Some current \<Rightarrow>
            if 0 < remaining_load then
              if 0 < current \<and> current < actual_pmax pwc then
                let increase = min (actual_pmax pwc - current) remaining_load
                in adjust_loop rest
                     (AList.update (name (plant pwc)) (py_round1 (current + increase)) allocation)
                     (remaining_load - increase)
              else if current = 0 \<and> pmin (plant pwc) \<le> remaining_load then
                let new_allocation = min remaining_load (actual_pmax pwc)
                in adjust_loop rest
                     (AList.update (name (plant pwc)) (py_round1 new_allocation) allocation)
                     (remaining_load - new_allocation)
              else adjust_loop rest allocation remaining_load
            else adjust_loop rest allocation remaining_load)"

definition adjust_allocation ::
  "PowerPlantWithCost list \<Rightarrow> allocation \<Rightarrow> real \<Rightarrow> error + allocation" where
  "adjust_allocation plants_with_cost allocation remaining_load =
     adjust_loop (rev plants_with_cost) allocation remaining_load"

definition allocate_power ::
  "ProductionPlanRequest \<Rightarrow> PowerPlantWithCost list \<Rightarrow> error + allocation" where
  "allocate_power self plants_with_cost =
     (case first_pass self plants_with_cost of (allocation, remaining_load) \<Rightarrow>
        (case (if 0.1 < \<bar>remaining_load\<bar>
               then adjust_allocation plants_with_cost allocation remaining_load
               else Inr allocation) of
           Inl e \<Rightarrow> Inl e
         | Inr allocation' \<Rightarrow>
             let total_allocated = sum_list (map snd allocation')
             in if 0.1 < \<bar>total_allocated - load self\<bar>
                then Inl (LoadNotMet (load self) total_allocated)
                else Inr allocation'))"

text \<open>The loop of \<open>calculate_production_plan\<close> that builds the response, in input order.\<close>

fun build_response :: "allocation \<Rightarrow> PowerPlant list \<Rightarrow> error + PowerPlantOutput list" where
  "build_response allocation [] = Inr []"
| "build_response allocation (pl # pls) =
     (let power = dict_get allocation (name pl) 0.0
      in case PowerPlantOutput_new (name pl) (py_round1 power) of
           Inl e \<Rightarrow> Inl e
         | Inr out \<Rightarrow>
             (case build_response allocation pls of
                Inl e \<Rightarrow> Inl e
              | Inr outs \<Rightarrow> Inr (out # outs)))"

definition calculate_production_plan :: "ProductionPlanRequest \<Rightarrow> error + PowerPlantOutput list" where
  "calculate_production_plan self =
     (case build_plants_with_cost self (powerplants self) of
        Inl e \<Rightarrow> Inl e
      | Inr plants_with_cost \<Rightarrow>
          (case allocate_power self (merit_order plants_with_cost) of
             Inl e \<Rightarrow> Inl e
           | Inr allocation \<Rightarrow> build_response allocation (powerplants self)))"

section \<open>The two passes as the specification words them\<close>

text \<open>
  First pass, specification 4.3: a plant whose turn comes with a remaining load of at most
  0.1 is assigned 0; otherwise, with available = min(effective max, remaining load), it is
  assigned round(available, 1) when available is at least Pmin and 0 when it is not. The
  assigned amount is subtracted from the remaining load. \<open>greedy_spec\<close> lists the
  assignments in the order of the walk, with the remaining load left at the end.
\<close>

definition greedy_assigned :: "real \<Rightarrow> PowerPlantWithCost \<Rightarrow> real" where
  "greedy_assigned remaining pwc =
     (if remaining \<le> 0.1 then 0
      else if pmin (plant pwc) \<le> min (actual_pmax pwc) remaining
           then py_round1 (min (actual_pmax pwc) remaining)
           else 0)"

fun greedy_spec :: "real \<Rightarrow> PowerPlantWithCost list \<Rightarrow> (string \<times> real) list \<times> real" where
  "greedy_spec remaining [] = ([], remaining)"
| "greedy_spec remaining (pwc # rest) =
     (case greedy_spec (remaining - greedy_assigned remaining pwc) rest of
        (assignments, left) \<Rightarrow>
          ((name (plant pwc), greedy_assigned remaining pwc) # assignments, left))"

definition assign_all :: "allocation \<Rightarrow> (string \<times> real) list \<Rightarrow> allocation" where
  "assign_all allocation assignments =
     foldl (\<lambda>al kv. AList.update (fst kv) (snd kv) al) allocation assignments"

text \<open>
  Second pass, specification 4.4, on the pair (allocation, remaining load): while the
  remaining load exceeds the tolerance and is positive, a plant with positive allocation
  below its effective maximum is increased by min(effective max - current, remaining load);
  an idle plant with remaining load at least Pmin is started at min(remaining load,
  effective max); the remaining load is decremented by the same amount; any other plant
  is left as it is. The value written into the allocation goes through \<open>rnd\<close>: the
  identity gives the specification's sentence to the letter.
\<close>

definition adjust_spec_step ::
  "(real \<Rightarrow> real) \<Rightarrow> allocation \<times> real \<Rightarrow> PowerPlantWithCost \<Rightarrow> allocation \<times> real" where
  "adjust_spec_step rnd st pwc =
     (case st of (allocation, remaining) \<Rightarrow>
        if 0.1 < \<bar>remaining\<bar> \<and> 0 < remaining then
          let current = dict_get allocation (name (plant pwc)) 0
          in if 0 < current \<and> current < actual_pmax pwc then
               (AList.update (name (plant pwc))
                  (rnd (current + min (actual_pmax pwc - current) remaining)) allocation,
                remaining - min (actual_pmax pwc - current) remaining)
             else if current = 0 \<and> pmin (plant pwc) \<le> remaining then
               (AList.update (name (plant pwc)) (rnd (min remaining (actual_pmax pwc))) allocation,
                remaining - min remaining (actual_pmax pwc))
             else (allocation, remaining)
        else (allocation, remaining))"

definition adjust_spec ::
  "(real \<Rightarrow> real) \<Rightarrow> PowerPlantWithCost list \<Rightarrow> allocation \<Rightarrow> real \<Rightarrow> allocation" where
  "adjust_spec rnd ranked allocation remaining =
     fst (foldl (adjust_spec_step rnd) (allocation, remaining) (rev ranked))"

text \<open>The second pass is invoked only if the remaining load exceeds the tolerance in absolute value.\<close>

definition two_pass_spec ::
  "(real \<Rightarrow> real) \<Rightarrow> ProductionPlanRequest \<Rightarrow> PowerPlantWithCost list \<Rightarrow> allocation" where
  "two_pass_spec rnd self ranked =
     (case first_pass self ranked of (allocation, remaining) \<Rightarrow>
        if 0.1 < \<bar>remaining\<bar> then adjust_spec rnd ranked allocation remaining else allocation)"

text \<open>
  A feasible dispatch, specification 8 (conservation and bounds): one output per plant,
  each 0 or within [Pmin, effective max], summing to the load within 0.1.
\<close>

definition within_bounds :: "ProductionPlanRequest \<Rightarrow> PowerPlant \<Rightarrow> real \<Rightarrow> bool" where
  "within_bounds self pl v \<longleftrightarrow> v = 0 \<or> pmin pl \<le> v \<and> v \<le> get_actual_pmax self pl"

definition feasible_dispatch :: "ProductionPlanRequest \<Rightarrow> real list \<Rightarrow> bool" where
  "feasible_dispatch self outs \<longleftrightarrow>
     list_all2 (within_bounds self) (powerplants self) outs
     \<and> \<bar>sum_list outs - load self\<bar> \<le> 0.1"

text \<open>The bounds after rounding both ends to one decimal: 0, or within [round(lo, 1), round(hi, 1)].\<close>

definition rounded_bounds :: "real \<Rightarrow> real \<Rightarrow> real \<Rightarrow> bool" where
  "rounded_bounds lo hi v \<longleftrightarrow> v = 0 \<or> py_round1 lo \<le> v \<and> v \<le> py_round1 hi"

text \<open>The total wind effective capacity of a request.\<close>

definition wind_capacity :: "ProductionPlanRequest \<Rightarrow> real" where
  "wind_capacity self =
     sum_list (map (get_actual_pmax self) (filter (\<lambda>pl. type pl = WINDTURBINE) (powerplants self)))"

section \<open>Example requests\<close>

text \<open>The plants and fuels of \<open>test_merit_order_gas_vs_turbojet\<close> and \<open>test_wind_has_priority\<close>.\<close>

definition test_fuels :: Fuels where
  "test_fuels = \<lparr>gas_euro_per_mwh = 13.4, kerosine_euro_per_mwh = 50.8,
                  co2_euro_per_ton = 20.0, wind_percentage = 50\<rparr>"

definition gas1 :: PowerPlant where
  "gas1 = \<lparr>name = ''gas1'', type = GASFIRED, efficiency = 0.53, pmin = 0, pmax = 100\<rparr>"

definition tj1 :: PowerPlant where
  "tj1 = \<lparr>name = ''tj1'', type = TURBOJET, efficiency = 0.3, pmin = 0, pmax = 100\<rparr>"

definition wind1 :: PowerPlant where
  "wind1 = \<lparr>name = ''wind1'', type = WINDTURBINE, efficiency = 1.0, pmin = 0, pmax = 100\<rparr>"

definition test_request :: ProductionPlanRequest where
  "test_request = \<lparr>load = 50, fuels = test_fuels, powerplants = [wind1, gas1, tj1]\<rparr>"

text \<open>
  A gas plant whose Pmax is not a multiple of 0.1, with a dearer one that cannot start:
  the first pass leaves 40 to the adjustment pass.
\<close>

definition odd_fuels :: Fuels where
  "odd_fuels = \<lparr>gas_euro_per_mwh = 10, kerosine_euro_per_mwh = 50,
                 co2_euro_per_ton = 0, wind_percentage = 50\<rparr>"

definition odd_g1 :: PowerPlant where
  "odd_g1 = \<lparr>name = ''g1'', type = GASFIRED, efficiency = 1, pmin = 0, pmax = 60.04\<rparr>"

definition odd_g2 :: PowerPlant where
  "odd_g2 = \<lparr>name = ''g2'', type = GASFIRED, efficiency = 0.5, pmin = 50, pmax = 100\<rparr>"

definition odd_request :: ProductionPlanRequest where
  "odd_request = \<lparr>load = 100, fuels = odd_fuels, powerplants = [odd_g1, odd_g2]\<rparr>"

definition odd_ranked :: "PowerPlantWithCost list" where
  "odd_ranked = [\<lparr>plant = odd_g1, cost_per_mwh = 10, actual_pmax = 60.04\<rparr>,
                 \<lparr>plant = odd_g2, cost_per_mwh = 20, actual_pmax = 100\<rparr>]"

text \<open>
  The example of the comment in \<open>_allocate_power\<close>: load 110, two plants with Pmin 20 and
  Pmax 100.
\<close>

definition todo_p1 :: PowerPlant where
  "todo_p1 = \<lparr>name = ''plant1'', type = GASFIRED, efficiency = 1, pmin = 20, pmax = 100\<rparr>"

definition todo_p2 :: PowerPlant where
  "todo_p2 = \<lparr>name = ''plant2'', type = GASFIRED, efficiency = 1, pmin = 20, pmax = 100\<rparr>"

definition todo_request :: ProductionPlanRequest where
  "todo_request = \<lparr>load = 110, fuels = odd_fuels, powerplants = [todo_p1, todo_p2]\<rparr>"

text \<open>A single plant whose Pmin is not a multiple of 0.1, asked for exactly its Pmin.\<close>

definition low_g :: PowerPlant where
  "low_g = \<lparr>name = ''g'', type = GASFIRED, efficiency = 1, pmin = 21.64, pmax = 100\<rparr>"

definition low_request :: ProductionPlanRequest where
  "low_request = \<lparr>load = 21.64, fuels = odd_fuels, powerplants = [low_g]\<rparr>"

text \<open>Two plants with the same name; the cheaper one cannot start at this load.\<close>

definition dup_a1 :: PowerPlant where
  "dup_a1 = \<lparr>name = ''a'', type = GASFIRED, efficiency = 1, pmin = 80, pmax = 100\<rparr>"

definition dup_a2 :: PowerPlant where
  "dup_a2 = \<lparr>name = ''a'', type = GASFIRED, efficiency = 0.5, pmin = 0, pmax = 50\<rparr>"

definition dup_request :: ProductionPlanRequest where
  "dup_request = \<lparr>load = 50, fuels = odd_fuels, powerplants = [dup_a1, dup_a2]\<rparr>"

text \<open>Gas at no cost: a gas plant that ties with wind on cost and is the larger of the two.\<close>

definition free_fuels :: Fuels where
  "free_fuels = \<lparr>gas_euro_per_mwh = 0, kerosine_euro_per_mwh = 50,
                  co2_euro_per_ton = 0, wind_percentage = 100\<rparr>"

definition free_wind :: PowerPlant where
  "free_wind = \<lparr>name = ''wind'', type = WINDTURBINE, efficiency = 1, pmin = 0, pmax = 50\<rparr>"

definition free_gas :: PowerPlant where
  "free_gas = \<lparr>name = ''gas'', type = GASFIRED, efficiency = 1, pmin = 0, pmax = 100\<rparr>"

definition free_request :: ProductionPlanRequest where
  "free_request = \<lparr>load = 100, fuels = free_fuels, powerplants = [free_wind, free_gas]\<rparr>"

section \<open>Rounding to one decimal\<close>

lemma round_half_even_bounds:
  "of_int (round_half_even y) \<le> y + 1 / 2 \<and> y - 1 / 2 \<le> of_int (round_half_even y)"
  unfolding round_half_even_def Let_def by (auto; linarith)

lemma round_half_even_of_int: "round_half_even (of_int k) = k"
  by (simp add: round_half_even_def)

lemma round_half_even_mono:
  assumes "x \<le> y"
  shows "round_half_even x \<le> round_half_even y"
proof (cases "\<lfloor>x\<rfloor> = \<lfloor>y\<rfloor>")
  case True
  with assms show ?thesis
    unfolding round_half_even_def Let_def by auto
next
  case False
  with assms have lt: "\<lfloor>x\<rfloor> + 1 \<le> \<lfloor>y\<rfloor>"
    using floor_mono [of x y] by linarith
  have "round_half_even x \<le> \<lfloor>x\<rfloor> + 1"
    unfolding round_half_even_def Let_def by auto
  moreover have "\<lfloor>y\<rfloor> \<le> round_half_even y"
    unfolding round_half_even_def Let_def by auto
  ultimately show ?thesis using lt by linarith
qed

lemma py_round1_mono: "x \<le> y \<Longrightarrow> py_round1 x \<le> py_round1 y"
  by (simp add: py_round1_def round_half_even_mono divide_right_mono)

lemma py_round1_tenth: "py_round1 (of_int k / 10) = of_int k / 10"
  by (simp add: py_round1_def round_half_even_of_int)

lemma py_round1_idem: "py_round1 (py_round1 x) = py_round1 x"
  unfolding py_round1_def [of "of_int (round_half_even (x * 10)) / 10"]
  by (simp add: round_half_even_of_int py_round1_def)

lemma py_round1_zero: "py_round1 0 = 0"
  using py_round1_tenth [of 0] by simp

lemma py_round1_nonneg: "0 \<le> x \<Longrightarrow> 0 \<le> py_round1 x"
  using py_round1_mono [of 0 x] by (simp add: py_round1_zero)

lemma py_round1_close: "\<bar>py_round1 x - x\<bar> \<le> 1 / 20"
proof -
  define r where "r = real_of_int (round_half_even (x * 10))"
  have b: "r \<le> x * 10 + 1 / 2" "x * 10 - 1 / 2 \<le> r"
    using round_half_even_bounds [of "x * 10"] by (simp_all add: r_def)
  have e: "py_round1 x = r / 10"
    by (simp add: py_round1_def r_def)
  show ?thesis
    unfolding e using b by linarith
qed

section \<open>Cost model: the three categories\<close>

text \<open>
  C3. For every plant that passed validation and every set of fuel prices: a wind plant
  costs 0 per unit and its effective maximum is Pmax times the wind percentage over 100;
  a gas-fired plant costs gas price / efficiency + CO2 price * 0.3 / efficiency and its
  effective maximum is Pmax; a turbojet costs the same with the kerosene price in place of
  the gas price, and its effective maximum is Pmax.
\<close>

theorem cost_model_by_category:
  assumes "valid_plant pl"
  shows "(type pl = WINDTURBINE \<longrightarrow>
            calculate_cost_per_mwh self pl = Inr 0 \<and>
            get_actual_pmax self pl = pmax pl * (wind_percentage (fuels self) / 100))
       \<and> (type pl = GASFIRED \<longrightarrow>
            calculate_cost_per_mwh self pl =
              Inr (gas_euro_per_mwh (fuels self) / efficiency pl
                   + co2_euro_per_ton (fuels self) * 0.3 / efficiency pl) \<and>
            get_actual_pmax self pl = pmax pl)
       \<and> (type pl = TURBOJET \<longrightarrow>
            calculate_cost_per_mwh self pl =
              Inr (kerosine_euro_per_mwh (fuels self) / efficiency pl
                   + co2_euro_per_ton (fuels self) * 0.3 / efficiency pl) \<and>
            get_actual_pmax self pl = pmax pl)"
proof -
  from assms have e: "efficiency pl \<noteq> 0"
    by (simp add: valid_plant_def)
  show ?thesis
    using e
    by (simp add: calculate_cost_per_mwh_def get_actual_pmax_def CO2_EMISSIONS_PER_MWH_def Let_def)
qed

theorem cost_model_by_category_witness:
  "valid_plant wind1 \<and> valid_plant gas1 \<and> valid_plant tj1
   \<and> calculate_cost_per_mwh test_request wind1 = Inr 0
   \<and> get_actual_pmax test_request wind1 = 50
   \<and> calculate_cost_per_mwh test_request gas1 = Inr (13.4 / 0.53 + 20 * 0.3 / 0.53)
   \<and> get_actual_pmax test_request gas1 = 100
   \<and> calculate_cost_per_mwh test_request tj1 = Inr (50.8 / 0.3 + 20 * 0.3 / 0.3)
   \<and> get_actual_pmax test_request tj1 = 100"
proof -
  have v: "valid_plant wind1" "valid_plant gas1" "valid_plant tj1"
    by (simp_all add: valid_plant_def wind1_def gas1_def tj1_def)
  show ?thesis
    using v cost_model_by_category [OF v(1), of test_request]
      cost_model_by_category [OF v(2), of test_request]
      cost_model_by_category [OF v(3), of test_request]
    by (simp add: wind1_def gas1_def tj1_def test_request_def test_fuels_def)
qed

section \<open>The unknown-type branch\<close>

text \<open>
  C10. The type of a plant is one of the three values of the enumeration PowerPlantType,
  so \<open>calculate_cost_per_mwh\<close> never takes its "Unknown power plant type" branch, and for a
  plant that passed validation it raises nothing at all: it returns a cost.
\<close>

theorem cost_never_raises:
  assumes "valid_plant pl"
  shows "(\<exists>c. calculate_cost_per_mwh self pl = Inr c)
       \<and> (\<forall>self' pl' t. calculate_cost_per_mwh self' pl' \<noteq> Inl (UnknownPowerPlantType t))"
proof
  from assms have e: "efficiency pl \<noteq> 0"
    by (simp add: valid_plant_def)
  show "\<exists>c. calculate_cost_per_mwh self pl = Inr c"
    using e by (cases "type pl") (simp_all add: calculate_cost_per_mwh_def Let_def)
next
  show "\<forall>self' pl' t. calculate_cost_per_mwh self' pl' \<noteq> Inl (UnknownPowerPlantType t)"
  proof (intro allI)
    fix self' pl' t
    show "calculate_cost_per_mwh self' pl' \<noteq> Inl (UnknownPowerPlantType t)"
      by (cases "type pl'") (simp_all add: calculate_cost_per_mwh_def Let_def)
  qed
qed

theorem cost_never_raises_witness:
  "valid_plant tj1 \<and> (\<exists>c. calculate_cost_per_mwh test_request tj1 = Inr c)"
proof -
  have v: "valid_plant tj1"
    by (simp add: valid_plant_def tj1_def)
  show ?thesis
    using v cost_never_raises [OF v, of test_request] by simp
qed

section \<open>Merit order: sorted, stable\<close>

text \<open>
  C6. The merit-order ranking is a rearrangement of the costed plants in which the cost per
  unit is ascending and plants of equal cost are in descending order of effective maximum;
  plants that are equal on both keys stay in their input order.
\<close>

theorem merit_order_sorted_stable:
  "mset (merit_order ps) = mset ps
   \<and> sorted_wrt (\<lambda>a b. cost_per_mwh a < cost_per_mwh b
                     \<or> cost_per_mwh a = cost_per_mwh b \<and> actual_pmax b \<le> actual_pmax a)
        (merit_order ps)
   \<and> (\<forall>c m. filter (\<lambda>x. cost_per_mwh x = c \<and> actual_pmax x = m) (merit_order ps)
            = filter (\<lambda>x. cost_per_mwh x = c \<and> actual_pmax x = m) ps)"
proof (intro conjI allI)
  show "mset (merit_order ps) = mset ps"
    by (simp add: merit_order_def)
next
  have "sorted (map merit_key (merit_order ps))"
    unfolding merit_order_def by (rule sorted_sort_key)
  then have "sorted_wrt (\<lambda>a b. merit_key a \<le> merit_key b) (merit_order ps)"
    by (simp add: sorted_map)
  moreover have "merit_key a \<le> merit_key b \<Longrightarrow>
      cost_per_mwh a < cost_per_mwh b
      \<or> cost_per_mwh a = cost_per_mwh b \<and> actual_pmax b \<le> actual_pmax a" for a b
    by (auto simp: merit_key_def less_eq_prod_def)
  ultimately show "sorted_wrt (\<lambda>a b. cost_per_mwh a < cost_per_mwh b
                     \<or> cost_per_mwh a = cost_per_mwh b \<and> actual_pmax b \<le> actual_pmax a)
        (merit_order ps)"
    by (rule sorted_wrt_mono_rel [rotated]) blast
next
  fix c m
  have k: "(cost_per_mwh x = c \<and> actual_pmax x = m) = (merit_key x = (c, - m))" for x
    by (auto simp: merit_key_def)
  show "filter (\<lambda>x. cost_per_mwh x = c \<and> actual_pmax x = m) (merit_order ps)
        = filter (\<lambda>x. cost_per_mwh x = c \<and> actual_pmax x = m) ps"
    unfolding k merit_order_def by (rule sort_key_stable)
qed

section \<open>The first pass\<close>

lemma first_pass_step_assigned:
  "first_pass_step (al, r) pwc =
     (AList.update (name (plant pwc)) (greedy_assigned r pwc) al, r - greedy_assigned r pwc)"
  by (simp add: first_pass_step_def greedy_assigned_def Let_def)

lemma foldl_first_pass_step:
  "foldl first_pass_step (al, r) ps =
     (assign_all al (fst (greedy_spec r ps)), snd (greedy_spec r ps))"
proof (induction ps arbitrary: al r)
  case Nil
  show ?case by (simp add: assign_all_def)
next
  case (Cons pwc ps)
  show ?case
    by (simp add: first_pass_step_assigned Cons.IH assign_all_def case_prod_beta)
qed

lemma greedy_spec_names: "map fst (fst (greedy_spec r ps)) = map (\<lambda>pwc. name (plant pwc)) ps"
  by (induction ps arbitrary: r) (simp_all add: case_prod_beta)

lemma assign_all_keys: "fst ` set (assign_all al xs) = fst ` set al \<union> fst ` set xs"
proof (induction xs arbitrary: al)
  case Nil
  show ?case by (simp add: assign_all_def)
next
  case (Cons x xs)
  have "fst ` set (assign_all (AList.update (fst x) (snd x) al) xs)
        = fst ` set (AList.update (fst x) (snd x) al) \<union> fst ` set xs"
    by (rule Cons.IH)
  then show ?case
    by (auto simp: assign_all_def dom_update)
qed

lemma first_pass_keys:
  "fst ` set (fst (foldl first_pass_step (al, r) ps))
     = fst ` set al \<union> (\<lambda>pwc. name (plant pwc)) ` set ps"
proof -
  have "fst ` set (fst (greedy_spec r ps)) = (\<lambda>pwc. name (plant pwc)) ` set ps"
    using greedy_spec_names [of r ps] by (metis set_map)
  then show ?thesis
    by (simp add: foldl_first_pass_step assign_all_keys)
qed

text \<open>
  C4. The first loop of \<open>_allocate_power\<close> makes exactly the assignments of the greedy pass
  as specified, in merit order and starting from the requested load: 0 for a plant whose
  turn comes with remaining load at most 0.1, round(available, 1) with that amount taken
  off the remaining load when available = min(effective max, remaining load) is at least
  Pmin, and 0 when it is below Pmin. After the pass the keys of the allocation are the
  names of all the plants.
\<close>

theorem first_pass_is_greedy_spec:
  "first_pass self ps =
     (assign_all [] (fst (greedy_spec (load self) ps)), snd (greedy_spec (load self) ps))
   \<and> fst ` set (fst (first_pass self ps)) = (\<lambda>pwc. name (plant pwc)) ` set ps"
proof
  show "first_pass self ps =
     (assign_all [] (fst (greedy_spec (load self) ps)), snd (greedy_spec (load self) ps))"
    unfolding first_pass_def by (rule foldl_first_pass_step)
next
  show "fst ` set (fst (first_pass self ps)) = (\<lambda>pwc. name (plant pwc)) ` set ps"
    unfolding first_pass_def by (simp add: first_pass_keys)
qed

section \<open>The adjustment pass\<close>

lemma adjust_spec_step_skip:
  "\<not> (0.1 < \<bar>R\<bar> \<and> 0 < R) \<Longrightarrow> adjust_spec_step rnd (al, R) pwc = (al, R)"
  by (auto simp: adjust_spec_step_def)

lemma adjust_spec_step_idle:
  "\<not> (0.1 < \<bar>R\<bar> \<and> 0 < R) \<Longrightarrow> foldl (adjust_spec_step rnd) (al, R) qs = (al, R)"
  by (induction qs) (simp_all add: adjust_spec_step_skip)

lemma map_of_key_present:
  "k \<in> fst ` set al \<Longrightarrow> \<exists>v. map_of al k = Some v"
  by (metis domD dom_map_of_conv_image_fst)

lemma adjust_loop_is_spec:
  "(\<lambda>pwc. name (plant pwc)) ` set qs \<subseteq> fst ` set al \<Longrightarrow>
   adjust_loop qs al R = Inr (fst (foldl (adjust_spec_step py_round1) (al, R) qs))"
proof (induction qs arbitrary: al R)
  case Nil
  show ?case by simp
next
  case (Cons pwc qs)
  from Cons.prems obtain current where cur: "map_of al (name (plant pwc)) = Some current"
    using map_of_key_present [of "name (plant pwc)" al] by auto
  have keys: "(\<lambda>pwc. name (plant pwc)) ` set qs \<subseteq> fst ` set (AList.update (name (plant pwc)) v al)" for v
    using Cons.prems by (auto simp: dom_update)
  have keys': "(\<lambda>pwc. name (plant pwc)) ` set qs \<subseteq> fst ` set al"
    using Cons.prems by auto
  show ?case
  proof (cases "\<bar>R\<bar> \<le> 0.1")
    case True
    then have "foldl (adjust_spec_step py_round1) (al, R) (pwc # qs) = (al, R)"
      by (intro adjust_spec_step_idle) simp
    with True show ?thesis by simp
  next
    case False
    show ?thesis
    proof (cases "0 < R")
      case pos: True
      show ?thesis
        using False pos cur Cons.IH [OF keys] Cons.IH [OF keys']
        by (simp add: adjust_spec_step_def dict_get_def Let_def)
    next
      case neg: False
      have "foldl (adjust_spec_step py_round1) (al, R) (pwc # qs) = (al, R)"
        using neg by (intro adjust_spec_step_idle) simp
      moreover have "foldl (adjust_spec_step py_round1) (al, R) qs = (al, R)"
        using neg by (intro adjust_spec_step_idle) simp
      ultimately show ?thesis
        using False neg cur Cons.IH [OF keys', of R] by simp
    qed
  qed
qed

lemma first_pass_keys':
  "fst ` set (fst (first_pass self ps)) = (\<lambda>pwc. name (plant pwc)) ` set ps"
  unfolding first_pass_def by (simp add: first_pass_keys)

lemma allocate_power_is_spec:
  "allocate_power self ps =
     (let allocation = two_pass_spec py_round1 self ps;
          total_allocated = sum_list (map snd allocation)
      in if 0.1 < \<bar>total_allocated - load self\<bar>
         then Inl (LoadNotMet (load self) total_allocated)
         else Inr allocation)"
proof -
  obtain al R where fp: "first_pass self ps = (al, R)"
    by (cases "first_pass self ps")
  have "(\<lambda>pwc. name (plant pwc)) ` set (rev ps) \<subseteq> fst ` set al"
    using first_pass_keys' [of self ps] fp by simp
  then have "adjust_allocation ps al R = Inr (adjust_spec py_round1 ps al R)"
    unfolding adjust_allocation_def adjust_spec_def by (rule adjust_loop_is_spec)
  then show ?thesis
    by (simp add: allocate_power_def two_pass_spec_def fp Let_def)
qed

lemma greedy_assigned_tenth: "py_round1 (greedy_assigned r pwc) = greedy_assigned r pwc"
  by (simp add: greedy_assigned_def py_round1_idem py_round1_zero)

lemma greedy_assigned_nonneg: "0 \<le> pmin (plant pwc) \<Longrightarrow> 0 \<le> greedy_assigned r pwc"
  by (simp add: greedy_assigned_def py_round1_nonneg)

lemma first_pass_values:
  assumes "\<forall>k v. map_of al k = Some v \<longrightarrow> Q v"
    and "\<And>r' pwc. pwc \<in> set ps \<Longrightarrow> Q (greedy_assigned r' pwc)"
  shows "\<forall>k v. map_of (fst (foldl first_pass_step (al, r) ps)) k = Some v \<longrightarrow> Q v"
  using assms
proof (induction ps arbitrary: al r)
  case Nil
  then show ?case by simp
next
  case (Cons pwc ps)
  let ?al = "AList.update (name (plant pwc)) (greedy_assigned r pwc) al"
  have a: "\<forall>k v. map_of ?al k = Some v \<longrightarrow> Q v"
  proof (intro allI impI)
    fix k v
    assume kv: "map_of ?al k = Some v"
    show "Q v"
    proof (cases "k = name (plant pwc)")
      case True
      with kv have "v = greedy_assigned r pwc"
        by (simp add: update_conv')
      moreover have "Q (greedy_assigned r pwc)"
        by (rule Cons.prems(2)) simp
      ultimately show ?thesis by simp
    next
      case False
      with kv have "map_of al k = Some v"
        by (simp add: update_conv')
      with Cons.prems(1) show ?thesis by blast
    qed
  qed
  have b: "Q (greedy_assigned r' p)" if "p \<in> set ps" for r' p
    by (rule Cons.prems(2)) (use that in simp)
  have "\<forall>k v. map_of (fst (foldl first_pass_step (?al, r - greedy_assigned r pwc) ps)) k = Some v
          \<longrightarrow> Q v"
    using a b by (rule Cons.IH)
  then show ?case
    by (simp only: foldl_Cons first_pass_step_assigned)
qed

lemma first_pass_distinct:
  "distinct (map fst al) \<Longrightarrow> distinct (map fst (fst (foldl first_pass_step (al, r) ps)))"
  by (induction ps arbitrary: al r) (simp_all add: first_pass_step_assigned distinct_update)

lemma adjust_loop_break:
  "\<bar>R\<bar> \<le> 0.1 \<Longrightarrow> adjust_loop (pwc # qs) al R = Inr al"
  by simp

lemma adjust_loop_topup:
  "\<not> \<bar>R\<bar> \<le> 0.1 \<Longrightarrow> 0 < R \<Longrightarrow> map_of al (name (plant pwc)) = Some cur \<Longrightarrow>
   0 < cur \<Longrightarrow> cur < actual_pmax pwc \<Longrightarrow>
   adjust_loop (pwc # qs) al R =
     adjust_loop qs
       (AList.update (name (plant pwc)) (py_round1 (cur + min (actual_pmax pwc - cur) R)) al)
       (R - min (actual_pmax pwc - cur) R)"
  by (simp add: Let_def)

lemma adjust_loop_start:
  "\<not> \<bar>R\<bar> \<le> 0.1 \<Longrightarrow> 0 < R \<Longrightarrow> map_of al (name (plant pwc)) = Some 0 \<Longrightarrow>
   pmin (plant pwc) \<le> R \<Longrightarrow>
   adjust_loop (pwc # qs) al R =
     adjust_loop qs
       (AList.update (name (plant pwc)) (py_round1 (min R (actual_pmax pwc))) al)
       (R - min R (actual_pmax pwc))"
  by (simp add: Let_def)

lemma adjust_loop_skip:
  "\<not> \<bar>R\<bar> \<le> 0.1 \<Longrightarrow> map_of al (name (plant pwc)) = Some cur \<Longrightarrow>
   \<not> (0 < R \<and> (0 < cur \<and> cur < actual_pmax pwc \<or> cur = 0 \<and> pmin (plant pwc) \<le> R)) \<Longrightarrow>
   adjust_loop (pwc # qs) al R = adjust_loop qs al R"
  by (auto simp: Let_def)

lemma adjust_loop_keyerror:
  "\<not> \<bar>R\<bar> \<le> 0.1 \<Longrightarrow> map_of al (name (plant pwc)) = None \<Longrightarrow>
   adjust_loop (pwc # qs) al R = Inl (KeyError (name (plant pwc)))"
  by simp

declare adjust_loop.simps(2) [simp del]

lemma adjust_loop_cases:
  assumes "adjust_loop (pwc # qs) al R = Inr al'"
  obtains
    (break) "\<bar>R\<bar> \<le> 0.1" "al' = al"
  | (topup) cur where "map_of al (name (plant pwc)) = Some cur" "0 < R" "0 < cur" "cur < actual_pmax pwc"
      "adjust_loop qs
         (AList.update (name (plant pwc)) (py_round1 (cur + min (actual_pmax pwc - cur) R)) al)
         (R - min (actual_pmax pwc - cur) R) = Inr al'"
  | (start) "map_of al (name (plant pwc)) = Some 0" "0 < R" "pmin (plant pwc) \<le> R"
      "adjust_loop qs
         (AList.update (name (plant pwc)) (py_round1 (min R (actual_pmax pwc))) al)
         (R - min R (actual_pmax pwc)) = Inr al'"
  | (skip) cur where "map_of al (name (plant pwc)) = Some cur" "adjust_loop qs al R = Inr al'"
proof (cases "\<bar>R\<bar> \<le> 0.1")
  case True
  have "al' = al"
    using assms unfolding adjust_loop_break [OF True] by simp
  with True show ?thesis by (rule break)
next
  case big: False
  show ?thesis
  proof (cases "map_of al (name (plant pwc))")
    case None
    show ?thesis
      using assms unfolding adjust_loop_keyerror [OF big None] by simp
  next
    case (Some cur)
    show ?thesis
    proof (cases "0 < R \<and> 0 < cur \<and> cur < actual_pmax pwc")
      case True
      then have c: "0 < R" "0 < cur" "cur < actual_pmax pwc"
        by simp_all
      show ?thesis
        using assms unfolding adjust_loop_topup [OF big c(1) Some c(2) c(3)]
        by (rule topup [OF Some c])
    next
      case nt: False
      show ?thesis
      proof (cases "0 < R \<and> cur = 0 \<and> pmin (plant pwc) \<le> R")
        case True
        then have c: "0 < R" "pmin (plant pwc) \<le> R" and z: "map_of al (name (plant pwc)) = Some 0"
          using Some by simp_all
        show ?thesis
          using assms unfolding adjust_loop_start [OF big c(1) z c(2)]
          by (rule start [OF z c])
      next
        case False
        with nt have "\<not> (0 < R \<and> (0 < cur \<and> cur < actual_pmax pwc \<or> cur = 0 \<and> pmin (plant pwc) \<le> R))"
          by blast
        with big Some have "adjust_loop (pwc # qs) al R = adjust_loop qs al R"
          by (rule adjust_loop_skip)
        with assms have "adjust_loop qs al R = Inr al'"
          by simp
        with Some show ?thesis by (rule skip)
      qed
    qed
  qed
qed

lemma adjust_loop_inv:
  assumes "adjust_loop qs al R = Inr al'"
    and "\<forall>k v. map_of al k = Some v \<longrightarrow> py_round1 v = v"
    and "\<forall>pwc \<in> set qs. 0 \<le> actual_pmax pwc"
  shows "(\<forall>k v. map_of al k = Some v \<longrightarrow> (\<exists>v'. map_of al' k = Some v' \<and> v \<le> v'))
       \<and> (\<forall>k v. map_of al' k = Some v \<longrightarrow> py_round1 v = v)
       \<and> fst ` set al' = fst ` set al
       \<and> (distinct (map fst al) \<longrightarrow> distinct (map fst al'))"
  using assms
proof (induction qs arbitrary: al R)
  case Nil
  then show ?case by simp
next
  case (Cons pwc qs)
  let ?n = "name (plant pwc)"
  have emax: "0 \<le> actual_pmax pwc" and rest: "\<forall>pwc \<in> set qs. 0 \<le> actual_pmax pwc"
    using Cons.prems(3) by simp_all
  have upd: ?case
    if run: "adjust_loop qs (AList.update ?n (py_round1 x) al) R' = Inr al'"
      and cur: "map_of al ?n = Some cur" and ge: "cur \<le> x"
    for x R' cur
  proof -
    have curt: "py_round1 cur = cur"
      using Cons.prems(2) cur by blast
    have nin: "?n \<in> fst ` set al"
      using cur by (metis domI dom_map_of_conv_image_fst)
    have t: "\<forall>k v. map_of (AList.update ?n (py_round1 x) al) k = Some v \<longrightarrow> py_round1 v = v"
      using Cons.prems(2) by (simp add: update_conv' py_round1_idem)
    note ih = Cons.IH [OF run t rest]
    note ih1 = ih [THEN conjunct1, rule_format]
    note ih2 = ih [THEN conjunct2, THEN conjunct1]
    note ih3 = ih [THEN conjunct2, THEN conjunct2, THEN conjunct1]
    note ih4 = ih [THEN conjunct2, THEN conjunct2, THEN conjunct2]
    have ge': "cur \<le> py_round1 x"
      using py_round1_mono [OF ge] curt by simp
    have m: "\<exists>v'. map_of al' k = Some v' \<and> v \<le> v'" if kv: "map_of al k = Some v" for k v
    proof (cases "k = ?n")
      case True
      with kv cur have "v = cur" by simp
      moreover have "map_of (AList.update ?n (py_round1 x) al) ?n = Some (py_round1 x)"
        by (simp add: update_conv')
      then obtain v' where "map_of al' ?n = Some v'" "py_round1 x \<le> v'"
        using ih1 by blast
      ultimately show ?thesis using True ge' by auto
    next
      case False
      with kv have "map_of (AList.update ?n (py_round1 x) al) k = Some v"
        by (simp add: update_conv')
      then show ?thesis by (rule ih1)
    qed
    have k: "fst ` set al' = fst ` set al"
      using ih3 nin by (simp add: dom_update insert_absorb)
    have d: "distinct (map fst al) \<longrightarrow> distinct (map fst al')"
      using ih4 by (simp add: distinct_update)
    show ?thesis
      using m ih2 k d by blast
  qed
  from Cons.prems(1) show ?case
  proof (cases rule: adjust_loop_cases)
    case break
    with Cons.prems(2) show ?thesis by simp
  next
    case (topup cur)
    have "cur \<le> cur + min (actual_pmax pwc - cur) R"
      using topup(2,3,4) by simp
    with topup(5) topup(1) show ?thesis by (rule upd)
  next
    case start
    have "0 \<le> min R (actual_pmax pwc)"
      using start(2) emax by simp
    with start(4) start(1) show ?thesis by (rule upd)
  next
    case (skip cur)
    from Cons.IH [OF skip(2) Cons.prems(2) rest] show ?thesis .
  qed
qed

section \<open>The adjustment pass against the specification\<close>

lemma odd_build: "build_plants_with_cost odd_request (powerplants odd_request) = Inr odd_ranked"
  by (simp add: odd_request_def odd_ranked_def odd_g1_def odd_g2_def odd_fuels_def
      calculate_cost_per_mwh_def get_actual_pmax_def CO2_EMISSIONS_PER_MWH_def)

lemma odd_merit: "merit_order odd_ranked = odd_ranked"
  by (simp add: odd_ranked_def merit_order_def merit_key_def)

lemma odd_first_pass: "first_pass odd_request odd_ranked = ([(''g1'', 60), (''g2'', 0)], 40)"
  by (simp add: first_pass_def odd_request_def odd_ranked_def first_pass_step_def odd_g1_def
      odd_g2_def py_round1_def round_half_even_def Let_def)

lemma odd_adjust:
  "adjust_allocation odd_ranked [(''g1'', 60), (''g2'', 0)] 40 = Inr [(''g1'', 60), (''g2'', 0)]"
  by (simp add: adjust_allocation_def odd_ranked_def odd_g1_def odd_g2_def adjust_loop.simps(2)
      py_round1_def round_half_even_def Let_def)

lemma odd_valid: "valid_request odd_request"
  by (simp add: valid_request_def valid_fuels_def valid_plant_def odd_request_def odd_fuels_def
      odd_g1_def odd_g2_def)

text \<open>
  C5 (as amended). The adjustment pass runs only when the remaining load after the first
  pass exceeds 0.1 in absolute value. Walking the ranked plants in reverse, and only
  while the remaining load exceeds 0.1 in absolute value and is positive: a plant with
  positive allocation below its effective maximum is set to
  round(current + min(effective max - current, remaining load), 1); an idle plant with
  remaining load at least Pmin is set to round(min(remaining load, effective max), 1); in
  both cases the remaining load is decremented by the unrounded amount; any other plant
  is left unchanged. The first conjunct is the pass on any allocation that has an entry
  for every plant, the second the whole of \<open>_allocate_power\<close>.
\<close>

theorem adjustment_pass_rounded_spec:
  "((\<lambda>pwc. name (plant pwc)) ` set ps \<subseteq> fst ` set al \<longrightarrow>
      adjust_allocation ps al R = Inr (adjust_spec py_round1 ps al R))
   \<and> allocate_power self ps =
       (let allocation = two_pass_spec py_round1 self ps;
            total_allocated = sum_list (map snd allocation)
        in if 0.1 < \<bar>total_allocated - load self\<bar>
           then Inl (LoadNotMet (load self) total_allocated)
           else Inr allocation)"
proof (intro conjI impI)
  assume "(\<lambda>pwc. name (plant pwc)) ` set ps \<subseteq> fst ` set al"
  then have "(\<lambda>pwc. name (plant pwc)) ` set (rev ps) \<subseteq> fst ` set al"
    by simp
  then show "adjust_allocation ps al R = Inr (adjust_spec py_round1 ps al R)"
    unfolding adjust_allocation_def adjust_spec_def by (rule adjust_loop_is_spec)
next
  show "allocate_power self ps =
       (let allocation = two_pass_spec py_round1 self ps;
            total_allocated = sum_list (map snd allocation)
        in if 0.1 < \<bar>total_allocated - load self\<bar>
           then Inl (LoadNotMet (load self) total_allocated)
           else Inr allocation)"
    by (rule allocate_power_is_spec)
qed

theorem adjustment_pass_rounded_spec_witness:
  "(\<lambda>pwc. name (plant pwc)) ` set odd_ranked \<subseteq> fst ` set [(''g1'', 60), (''g2'', 0)]
   \<and> adjust_spec py_round1 odd_ranked [(''g1'', 60), (''g2'', 0)] 40 = [(''g1'', 60), (''g2'', 0)]"
proof -
  have k: "(\<lambda>pwc. name (plant pwc)) ` set odd_ranked \<subseteq> fst ` set [(''g1'', 60::real), (''g2'', 0)]"
    by (simp add: odd_ranked_def odd_g1_def odd_g2_def)
  show ?thesis
    using k adjustment_pass_rounded_spec [of odd_ranked "[(''g1'', 60), (''g2'', 0)]" 40]
    by (simp add: odd_adjust)
qed

text \<open>
  C5 as stated, without the rounding, fails: with Pmax = 60.04 the first pass assigns 60.0
  and leaves 40; the adjustment pass writes round(60.04, 1) = 60.0 where the sentence of
  the specification gives 60.04.
\<close>

theorem adjustment_unrounded_counterexample:
  "build_plants_with_cost odd_request (powerplants odd_request) = Inr odd_ranked
   \<and> merit_order odd_ranked = odd_ranked
   \<and> first_pass odd_request odd_ranked = ([(''g1'', 60), (''g2'', 0)], 40)
   \<and> adjust_allocation odd_ranked [(''g1'', 60), (''g2'', 0)] 40 = Inr [(''g1'', 60), (''g2'', 0)]
   \<and> adjust_spec id odd_ranked [(''g1'', 60), (''g2'', 0)] 40 = [(''g1'', 60.04), (''g2'', 0)]"
proof -
  have "adjust_spec id odd_ranked [(''g1'', 60), (''g2'', 0)] 40 = [(''g1'', 60.04), (''g2'', 0)]"
    by (simp add: adjust_spec_def adjust_spec_step_def dict_get_def odd_ranked_def odd_g1_def
        odd_g2_def Let_def)
  then show ?thesis
    by (simp add: odd_build odd_merit odd_first_pass odd_adjust)
qed

section \<open>Valid requests; the adjustment pass only adds\<close>

lemma cost_valid_plant:
  "valid_plant pl \<Longrightarrow> \<exists>c. calculate_cost_per_mwh self pl = Inr c"
  by (cases "type pl") (simp_all add: calculate_cost_per_mwh_def valid_plant_def Let_def)

lemma build_plants_with_cost_valid:
  "list_all valid_plant pls \<Longrightarrow> \<exists>pwcs. build_plants_with_cost self pls = Inr pwcs"
proof (induction pls)
  case Nil
  show ?case by simp
next
  case (Cons pl pls)
  then obtain c pwcs where "calculate_cost_per_mwh self pl = Inr c"
    and "build_plants_with_cost self pls = Inr pwcs"
    using cost_valid_plant [of pl self] by auto
  then show ?case by simp
qed

lemma build_plants_with_cost_props:
  "build_plants_with_cost self pls = Inr pwcs \<Longrightarrow>
   map plant pwcs = pls \<and> (\<forall>pwc \<in> set pwcs. actual_pmax pwc = get_actual_pmax self (plant pwc))"
proof (induction pls arbitrary: pwcs)
  case Nil
  then show ?case by simp
next
  case (Cons pl pls)
  from Cons.prems obtain c rest where c: "calculate_cost_per_mwh self pl = Inr c"
    and r: "build_plants_with_cost self pls = Inr rest"
    and p: "pwcs = \<lparr>plant = pl, cost_per_mwh = c, actual_pmax = get_actual_pmax self pl\<rparr> # rest"
    by (auto split: sum.splits)
  from Cons.IH [OF r] p show ?case by simp
qed

lemma get_actual_pmax_nonneg:
  "valid_fuels (fuels self) \<Longrightarrow> valid_plant pl \<Longrightarrow> 0 \<le> get_actual_pmax self pl"
  by (simp add: get_actual_pmax_def valid_fuels_def valid_plant_def)

lemma set_merit_order: "set (merit_order pwcs) = set pwcs"
  by (simp add: merit_order_def)

lemma valid_request_ranked:
  assumes "valid_request self" and "build_plants_with_cost self (powerplants self) = Inr pwcs"
    and "pwc \<in> set (merit_order pwcs)"
  shows "valid_plant (plant pwc) \<and> 0 \<le> actual_pmax pwc
         \<and> actual_pmax pwc = get_actual_pmax self (plant pwc)"
proof -
  note props = build_plants_with_cost_props [OF assms(2)]
  have in_set: "pwc \<in> set pwcs"
    using assms(3) by (simp add: set_merit_order)
  then have "plant pwc \<in> set (map plant pwcs)"
    by simp
  then have "plant pwc \<in> set (powerplants self)"
    using props by simp
  then have v: "valid_plant (plant pwc)"
    using assms(1) by (simp add: valid_request_def list_all_iff)
  have e: "actual_pmax pwc = get_actual_pmax self (plant pwc)"
    using props in_set by blast
  have "valid_fuels (fuels self)"
    using assms(1) by (simp add: valid_request_def)
  then have "0 \<le> get_actual_pmax self (plant pwc)"
    using v by (rule get_actual_pmax_nonneg)
  with v e show ?thesis by simp
qed

lemma first_pass_tenths:
  "first_pass self ps = (al, R) \<Longrightarrow> \<forall>k v. map_of al k = Some v \<longrightarrow> py_round1 v = v"
proof -
  assume fp: "first_pass self ps = (al, R)"
  have "\<forall>k v. map_of (fst (foldl first_pass_step ([], load self) ps)) k = Some v \<longrightarrow> py_round1 v = v"
    by (rule first_pass_values) (simp_all add: greedy_assigned_tenth)
  with fp show ?thesis by (simp add: first_pass_def)
qed

lemma todo_fails: "calculate_production_plan todo_request = Inl (LoadNotMet 110 100)"
  by (simp add: calculate_production_plan_def todo_request_def todo_p1_def todo_p2_def odd_fuels_def
      calculate_cost_per_mwh_def get_actual_pmax_def CO2_EMISSIONS_PER_MWH_def
      merit_order_def merit_key_def allocate_power_def first_pass_def first_pass_step_def
      adjust_allocation_def adjust_loop.simps(2) py_round1_def round_half_even_def Let_def)

lemma todo_valid: "valid_request todo_request"
  by (simp add: valid_request_def valid_fuels_def valid_plant_def todo_request_def odd_fuels_def
      todo_p1_def todo_p2_def)

lemma todo_feasible: "feasible_dispatch todo_request [90, 20]"
  by (simp add: feasible_dispatch_def within_bounds_def todo_request_def todo_p1_def todo_p2_def
      odd_fuels_def get_actual_pmax_def)

text \<open>
  C7. The adjustment pass never decreases an allocation: on the allocation that the first
  pass leaves for a valid request, \<open>_adjust_allocation\<close> returns an allocation in which
  every entry is at least what it was. It has no step that lowers a running plant, and
  so the request of the comment in \<open>_allocate_power\<close> (load 110, two plants with Pmin 20
  and Pmax 100) fails with 100 allocated although the dispatch 90 + 20 is feasible.
\<close>

theorem adjustment_never_decreases:
  assumes "valid_request self"
    and "build_plants_with_cost self (powerplants self) = Inr pwcs"
    and "first_pass self (merit_order pwcs) = (al, R)"
  shows "(\<exists>al'. adjust_allocation (merit_order pwcs) al R = Inr al'
            \<and> (\<forall>k v. map_of al k = Some v \<longrightarrow> (\<exists>v'. map_of al' k = Some v' \<and> v \<le> v')))
       \<and> valid_request todo_request
       \<and> calculate_production_plan todo_request = Inl (LoadNotMet 110 100)
       \<and> feasible_dispatch todo_request [90, 20]"
proof -
  let ?ps = "merit_order pwcs"
  have keys: "(\<lambda>pwc. name (plant pwc)) ` set (rev ?ps) \<subseteq> fst ` set al"
    using first_pass_keys' [of self ?ps] assms(3) by simp
  have run: "adjust_loop (rev ?ps) al R
               = Inr (fst (foldl (adjust_spec_step py_round1) (al, R) (rev ?ps)))"
    using keys by (rule adjust_loop_is_spec)
  have tenths: "\<forall>k v. map_of al k = Some v \<longrightarrow> py_round1 v = v"
    using assms(3) by (rule first_pass_tenths)
  have "\<forall>pwc \<in> set ?ps. 0 \<le> actual_pmax pwc"
    using valid_request_ranked [OF assms(1,2)] by blast
  then have emax: "\<forall>pwc \<in> set (rev ?ps). 0 \<le> actual_pmax pwc"
    by simp
  note inv = adjust_loop_inv [OF run tenths emax]
  have "\<exists>al'. adjust_allocation ?ps al R = Inr al'
            \<and> (\<forall>k v. map_of al k = Some v \<longrightarrow> (\<exists>v'. map_of al' k = Some v' \<and> v \<le> v'))"
    unfolding adjust_allocation_def using run inv [THEN conjunct1] by blast
  then show ?thesis
    using todo_valid todo_fails todo_feasible by blast
qed

theorem adjustment_never_decreases_witness:
  "valid_request odd_request
   \<and> build_plants_with_cost odd_request (powerplants odd_request) = Inr odd_ranked
   \<and> first_pass odd_request (merit_order odd_ranked) = ([(''g1'', 60), (''g2'', 0)], 40)
   \<and> (\<exists>al'. adjust_allocation (merit_order odd_ranked) [(''g1'', 60), (''g2'', 0)] 40 = Inr al'
          \<and> (\<exists>v'. map_of al' ''g1'' = Some v' \<and> 60 \<le> v'))"
proof -
  have fp: "first_pass odd_request (merit_order odd_ranked) = ([(''g1'', 60), (''g2'', 0)], 40)"
    by (simp add: odd_merit odd_first_pass)
  have "map_of [(''g1'', 60::real), (''g2'', 0)] ''g1'' = Some 60"
    by simp
  then show ?thesis
    using adjustment_never_decreases [OF odd_valid odd_build fp] odd_valid odd_build fp
    by blast
qed

section \<open>The allocation that is returned\<close>

lemma allocate_power_Inr:
  assumes "allocate_power self ps = Inr al" and "first_pass self ps = (al0, R)"
  shows "(if 0.1 < \<bar>R\<bar> then adjust_allocation ps al0 R else Inr al0) = Inr al
         \<and> \<bar>sum_list (map snd al) - load self\<bar> \<le> 0.1"
proof -
  define res where "res = (if 0.1 < \<bar>R\<bar> then adjust_allocation ps al0 R else Inr al0)"
  have eq: "allocate_power self ps =
      (case res of
         Inl e \<Rightarrow> Inl e
       | Inr a \<Rightarrow>
           if 0.1 < \<bar>sum_list (map snd a) - load self\<bar>
           then Inl (LoadNotMet (load self) (sum_list (map snd a)))
           else Inr a)"
    by (simp only: allocate_power_def assms(2) res_def Let_def prod.case)
  show ?thesis
  proof (cases res)
    case (Inl e)
    with eq assms(1) show ?thesis by simp
  next
    case (Inr a)
    show ?thesis
    proof (cases "0.1 < \<bar>sum_list (map snd a) - load self\<bar>")
      case True
      with eq Inr assms(1) show ?thesis by simp
    next
      case False
      with eq Inr assms(1) have "a = al" by simp
      with False Inr show ?thesis
        unfolding res_def by simp
    qed
  qed
qed

lemma final_allocation:
  assumes "valid_request self"
    and "build_plants_with_cost self (powerplants self) = Inr pwcs"
    and "allocate_power self (merit_order pwcs) = Inr al"
  shows "\<bar>sum_list (map snd al) - load self\<bar> \<le> 0.1"
    and "distinct (map fst al)"
    and "fst ` set al = name ` set (powerplants self)"
    and "\<forall>k v. map_of al k = Some v \<longrightarrow> py_round1 v = v \<and> 0 \<le> v"
proof -
  let ?ps = "merit_order pwcs"
  obtain al0 R where fp: "first_pass self ?ps = (al0, R)"
    by (cases "first_pass self ?ps")
  note ranked = valid_request_ranked [OF assms(1,2)]
  have names: "(\<lambda>pwc. name (plant pwc)) ` set ?ps = name ` set (powerplants self)"
  proof -
    have "map plant pwcs = powerplants self"
      using build_plants_with_cost_props [OF assms(2)] by simp
    then have "set (powerplants self) = plant ` set pwcs"
      by (metis set_map)
    then show ?thesis
      by (simp add: set_merit_order image_image)
  qed
  have fold: "foldl first_pass_step ([], load self) ?ps = (al0, R)"
    using fp by (simp add: first_pass_def)
  have k0: "fst ` set al0 = name ` set (powerplants self)"
    using first_pass_keys' [of self ?ps] fp names by simp
  have d0: "distinct (map fst al0)"
    using first_pass_distinct [of "[]" "load self" ?ps] unfolding fold by simp
  have "\<forall>k v. map_of (fst (foldl first_pass_step ([], load self) ?ps)) k = Some v
          \<longrightarrow> py_round1 v = v \<and> 0 \<le> v"
  proof (rule first_pass_values)
    show "\<forall>k v. map_of [] k = Some v \<longrightarrow> py_round1 v = v \<and> 0 \<le> v"
      by simp
  next
    fix r' pwc
    assume "pwc \<in> set ?ps"
    then have "0 \<le> pmin (plant pwc)"
      using ranked [of pwc] by (simp add: valid_plant_def)
    then show "py_round1 (greedy_assigned r' pwc) = greedy_assigned r' pwc \<and> 0 \<le> greedy_assigned r' pwc"
      by (simp add: greedy_assigned_tenth greedy_assigned_nonneg)
  qed
  then have v0: "\<forall>k v. map_of al0 k = Some v \<longrightarrow> py_round1 v = v \<and> 0 \<le> v"
    unfolding fold fst_conv .
  show "\<bar>sum_list (map snd al) - load self\<bar> \<le> 0.1"
    using allocate_power_Inr [OF assms(3) fp] by blast
  have fin: "distinct (map fst al) \<and> fst ` set al = name ` set (powerplants self)
       \<and> (\<forall>k v. map_of al k = Some v \<longrightarrow> py_round1 v = v \<and> 0 \<le> v)"
  proof (cases "0.1 < \<bar>R\<bar>")
    case False
    then have "al = al0"
      using allocate_power_Inr [OF assms(3) fp] by simp
    show ?thesis
      unfolding \<open>al = al0\<close> using k0 d0 v0 by (intro conjI)
  next
    case True
    then have run: "adjust_loop (rev ?ps) al0 R = Inr al"
      using allocate_power_Inr [OF assms(3) fp] by (simp add: adjust_allocation_def)
    have t0: "\<forall>k v. map_of al0 k = Some v \<longrightarrow> py_round1 v = v"
      using v0 by blast
    have "\<forall>pwc \<in> set ?ps. 0 \<le> actual_pmax pwc"
      using ranked by blast
    then have emax: "\<forall>pwc \<in> set (rev ?ps). 0 \<le> actual_pmax pwc"
      by simp
    note inv = adjust_loop_inv [OF run t0 emax]
    note mono = inv [THEN conjunct1, rule_format]
    note tenths = inv [THEN conjunct2, THEN conjunct1, rule_format]
    note keys = inv [THEN conjunct2, THEN conjunct2, THEN conjunct1]
    note dist = inv [THEN conjunct2, THEN conjunct2, THEN conjunct2]
    have vals: "py_round1 v = v \<and> 0 \<le> v" if kv: "map_of al k = Some v" for k v
    proof -
      from kv have "k \<in> dom (map_of al)"
        by blast
      then have "k \<in> fst ` set al"
        by (simp add: dom_map_of_conv_image_fst)
      then have "k \<in> fst ` set al0"
        using keys by simp
      then obtain v0' where a: "map_of al0 k = Some v0'"
        using map_of_key_present [of k al0] by blast
      with v0 have "0 \<le> v0'" by blast
      moreover obtain v' where "map_of al k = Some v'" "v0' \<le> v'"
        using mono [OF a] by blast
      ultimately have "0 \<le> v" using kv by simp
      moreover have "py_round1 v = v"
        using kv by (rule tenths)
      ultimately show ?thesis by blast
    qed
    have "distinct (map fst al)"
      using dist d0 by blast
    moreover have "fst ` set al = name ` set (powerplants self)"
      using keys k0 by (simp only:)
    moreover have "\<forall>k v. map_of al k = Some v \<longrightarrow> py_round1 v = v \<and> 0 \<le> v"
      using vals by blast
    ultimately show ?thesis
      by (intro conjI)
  qed
  show "distinct (map fst al)"
    by (rule fin [THEN conjunct1])
  show "fst ` set al = name ` set (powerplants self)"
    by (rule fin [THEN conjunct2, THEN conjunct1])
  show "\<forall>k v. map_of al k = Some v \<longrightarrow> py_round1 v = v \<and> 0 \<le> v"
    by (rule fin [THEN conjunct2, THEN conjunct2])
qed

lemma PowerPlantOutput_new_tenth:
  "0 \<le> v \<Longrightarrow> py_round1 v = v \<Longrightarrow> PowerPlantOutput_new n (py_round1 v) = Inr \<lparr>out_name = n, out_p = v\<rparr>"
  by (simp add: PowerPlantOutput_new_def)

lemma dict_get_value:
  assumes "\<forall>k v. map_of al k = Some v \<longrightarrow> py_round1 v = v \<and> 0 \<le> v"
  shows "py_round1 (dict_get al n 0) = dict_get al n 0 \<and> 0 \<le> dict_get al n 0"
proof (cases "map_of al n")
  case None
  then show ?thesis by (simp add: dict_get_def py_round1_zero)
next
  case (Some v)
  with assms show ?thesis by (simp add: dict_get_def)
qed

lemma build_response_valid:
  assumes "\<forall>k v. map_of al k = Some v \<longrightarrow> py_round1 v = v \<and> 0 \<le> v"
  shows "build_response al pls =
           Inr (map (\<lambda>pl. \<lparr>out_name = name pl, out_p = dict_get al (name pl) 0\<rparr>) pls)"
proof (induction pls)
  case Nil
  show ?case by simp
next
  case (Cons pl pls)
  have d: "py_round1 (dict_get al (name pl) 0) = dict_get al (name pl) 0"
    "0 \<le> dict_get al (name pl) 0"
    using dict_get_value [OF assms, of "name pl"] by blast+
  have "PowerPlantOutput_new (name pl) (py_round1 (dict_get al (name pl) 0))
          = Inr \<lparr>out_name = name pl, out_p = dict_get al (name pl) 0\<rparr>"
    using d(2) d(1) by (rule PowerPlantOutput_new_tenth)
  with Cons.IH show ?case by (simp add: Let_def)
qed

lemma sum_list_values_by_key:
  "distinct (map fst al) \<Longrightarrow>
   sum_list (map snd al) = sum_list (map (\<lambda>n. dict_get al n 0) (map fst al))"
proof (induction al)
  case Nil
  show ?case by simp
next
  case (Cons kv al)
  obtain k v where kv: "kv = (k, v)" by (cases kv)
  from Cons.prems kv have notin: "k \<notin> fst ` set al" and d: "distinct (map fst al)"
    by simp_all
  have e: "map (\<lambda>n. dict_get (kv # al) n 0) (map fst al) = map (\<lambda>n. dict_get al n 0) (map fst al)"
    using notin kv by (intro map_cong) (auto simp: dict_get_def)
  have h: "dict_get (kv # al) k 0 = v"
    using kv by (simp add: dict_get_def)
  have "sum_list (map snd (kv # al)) = v + sum_list (map snd al)"
    using kv by simp
  also have "\<dots> = v + sum_list (map (\<lambda>n. dict_get al n 0) (map fst al))"
    using Cons.IH [OF d] by (simp only:)
  also have "\<dots> = dict_get (kv # al) k 0 + sum_list (map (\<lambda>n. dict_get (kv # al) n 0) (map fst al))"
    unfolding h e ..
  also have "\<dots> = sum_list (map (\<lambda>n. dict_get (kv # al) n 0) (map fst (kv # al)))"
    using kv by simp
  finally show ?case .
qed

lemma sum_list_values_by_names:
  assumes "distinct (map fst al)" and "distinct ns" and "set ns = fst ` set al"
  shows "sum_list (map (\<lambda>n. dict_get al n 0) ns) = sum_list (map snd al)"
proof -
  have "sum_list (map (\<lambda>n. dict_get al n 0) ns) = sum (\<lambda>n. dict_get al n 0) (set ns)"
    using assms(2) by (rule sum_list_distinct_conv_sum_set)
  also have "\<dots> = sum (\<lambda>n. dict_get al n 0) (set (map fst al))"
    using assms(3) by simp
  also have "\<dots> = sum_list (map (\<lambda>n. dict_get al n 0) (map fst al))"
    using assms(1) by (rule sum_list_distinct_conv_sum_set [symmetric])
  also have "\<dots> = sum_list (map snd al)"
    using assms(1) by (rule sum_list_values_by_key [symmetric])
  finally show ?thesis .
qed

section \<open>Conservation, or failure\<close>

lemma first_pass_untouched:
  "k \<notin> (\<lambda>pwc. name (plant pwc)) ` set ps \<Longrightarrow>
   map_of (fst (foldl first_pass_step (al, r) ps)) k = map_of al k"
  by (induction ps arbitrary: al r) (simp_all add: first_pass_step_assigned update_conv')

lemma first_pass_last_writer:
  assumes "name (plant pwc) \<notin> (\<lambda>pwc. name (plant pwc)) ` set ys"
  shows "map_of (fst (first_pass self (xs @ pwc # ys))) (name (plant pwc))
           = Some (greedy_assigned (snd (first_pass self xs)) pwc)"
proof -
  obtain alx rx where x: "foldl first_pass_step ([], load self) xs = (alx, rx)"
    by (cases "foldl first_pass_step ([], load self) xs")
  have "first_pass self (xs @ pwc # ys)
          = foldl first_pass_step
              (AList.update (name (plant pwc)) (greedy_assigned rx pwc) alx, rx - greedy_assigned rx pwc) ys"
    by (simp add: first_pass_def x first_pass_step_assigned)
  then have "map_of (fst (first_pass self (xs @ pwc # ys))) (name (plant pwc))
          = map_of (AList.update (name (plant pwc)) (greedy_assigned rx pwc) alx) (name (plant pwc))"
    using first_pass_untouched [OF assms] by simp
  then show ?thesis
    by (simp add: update_conv' first_pass_def x)
qed

lemma calculate_production_plan_valid:
  assumes "valid_request self"
    and "build_plants_with_cost self (powerplants self) = Inr pwcs"
    and "allocate_power self (merit_order pwcs) = Inr al"
  shows "calculate_production_plan self =
           Inr (map (\<lambda>pl. \<lparr>out_name = name pl, out_p = dict_get al (name pl) 0\<rparr>) (powerplants self))"
proof -
  have "build_response al (powerplants self) =
           Inr (map (\<lambda>pl. \<lparr>out_name = name pl, out_p = dict_get al (name pl) 0\<rparr>) (powerplants self))"
    using final_allocation(4) [OF assms] by (rule build_response_valid)
  then show ?thesis
    by (simp add: calculate_production_plan_def assms(2,3))
qed

lemma plan_total:
  assumes "valid_request self"
    and "build_plants_with_cost self (powerplants self) = Inr pwcs"
    and "allocate_power self (merit_order pwcs) = Inr al"
    and "distinct (map name (powerplants self))"
  shows "sum_list (map (\<lambda>pl. dict_get al (name pl) 0) (powerplants self)) = sum_list (map snd al)"
proof -
  have "sum_list (map (\<lambda>n. dict_get al n 0) (map name (powerplants self))) = sum_list (map snd al)"
  proof (rule sum_list_values_by_names)
    show "distinct (map fst al)"
      by (rule final_allocation(2) [OF assms(1,2,3)])
    show "distinct (map name (powerplants self))"
      by (rule assms(4))
    show "set (map name (powerplants self)) = fst ` set al"
      using final_allocation(3) [OF assms(1,2,3)] by simp
  qed
  then show ?thesis
    by (simp add: comp_def)
qed

lemma allocate_power_Inl:
  assumes "allocate_power self ps = Inl e"
  shows "e = LoadNotMet (load self) (sum_list (map snd (two_pass_spec py_round1 self ps)))
       \<and> 0.1 < \<bar>sum_list (map snd (two_pass_spec py_round1 self ps)) - load self\<bar>"
proof -
  let ?al = "two_pass_spec py_round1 self ps"
  have "allocate_power self ps =
      (if 0.1 < \<bar>sum_list (map snd ?al) - load self\<bar>
       then Inl (LoadNotMet (load self) (sum_list (map snd ?al)))
       else Inr ?al)"
    using allocate_power_is_spec [of self ps] by (simp only: Let_def)
  with assms show ?thesis
    by (cases "0.1 < \<bar>sum_list (map snd ?al) - load self\<bar>") auto
qed

text \<open>
  C1. For every valid request, \<open>calculate_production_plan\<close> either returns a plan, built
  from an allocation whose values sum to the requested load within 0.1, or raises the
  load-not-met error, which carries the required load and the achieved total (the sum of
  the allocation after both passes), the two differing by more than 0.1; no other error
  is possible and nothing is returned in that case. The plan holds the allocation's
  value for every plant, so when the plant names are pairwise distinct the outputs of
  the plan sum to the load within 0.1 as well.
\<close>

theorem plan_or_load_not_met:
  assumes "valid_request self"
  shows "(\<exists>pwcs al plan.
            build_plants_with_cost self (powerplants self) = Inr pwcs
          \<and> allocate_power self (merit_order pwcs) = Inr al
          \<and> calculate_production_plan self = Inr plan
          \<and> plan = map (\<lambda>pl. \<lparr>out_name = name pl, out_p = dict_get al (name pl) 0\<rparr>) (powerplants self)
          \<and> \<bar>sum_list (map snd al) - load self\<bar> \<le> 0.1
          \<and> (distinct (map name (powerplants self)) \<longrightarrow>
                 \<bar>sum_list (map out_p plan) - load self\<bar> \<le> 0.1))
       \<or> (\<exists>pwcs total.
            build_plants_with_cost self (powerplants self) = Inr pwcs
          \<and> total = sum_list (map snd (two_pass_spec py_round1 self (merit_order pwcs)))
          \<and> calculate_production_plan self = Inl (LoadNotMet (load self) total)
          \<and> 0.1 < \<bar>total - load self\<bar>)"
proof -
  have "list_all valid_plant (powerplants self)"
    using assms by (simp add: valid_request_def)
  then obtain pwcs where b: "build_plants_with_cost self (powerplants self) = Inr pwcs"
    using build_plants_with_cost_valid [of "powerplants self" self] by blast
  show ?thesis
  proof (cases "allocate_power self (merit_order pwcs)")
    case (Inl e)
    define total where "total = sum_list (map snd (two_pass_spec py_round1 self (merit_order pwcs)))"
    have "e = LoadNotMet (load self) total" "0.1 < \<bar>total - load self\<bar>"
      using allocate_power_Inl [OF Inl] unfolding total_def by blast+
    moreover have "calculate_production_plan self = Inl e"
      by (simp add: calculate_production_plan_def b Inl)
    ultimately show ?thesis
      using b total_def by blast
  next
    case (Inr al)
    let ?plan = "map (\<lambda>pl. \<lparr>out_name = name pl, out_p = dict_get al (name pl) 0\<rparr>) (powerplants self)"
    have p: "calculate_production_plan self = Inr ?plan"
      using assms b Inr by (rule calculate_production_plan_valid)
    have s: "\<bar>sum_list (map snd al) - load self\<bar> \<le> 0.1"
      using assms b Inr by (rule final_allocation(1))
    have "\<bar>sum_list (map out_p ?plan) - load self\<bar> \<le> 0.1"
      if "distinct (map name (powerplants self))"
    proof -
      have "sum_list (map out_p ?plan) = sum_list (map (\<lambda>pl. dict_get al (name pl) 0) (powerplants self))"
        by (simp add: comp_def)
      also have "\<dots> = sum_list (map snd al)"
        using assms b Inr that by (rule plan_total)
      finally show ?thesis using s by simp
    qed
    with b Inr p s show ?thesis by blast
  qed
qed

lemma test_plan:
  "calculate_production_plan test_request =
     Inr [\<lparr>out_name = ''wind1'', out_p = 50\<rparr>, \<lparr>out_name = ''gas1'', out_p = 0\<rparr>,
          \<lparr>out_name = ''tj1'', out_p = 0\<rparr>]"
  by (simp add: calculate_production_plan_def test_request_def test_fuels_def wind1_def gas1_def tj1_def
      calculate_cost_per_mwh_def get_actual_pmax_def CO2_EMISSIONS_PER_MWH_def
      merit_order_def merit_key_def allocate_power_def first_pass_def first_pass_step_def
      dict_get_def PowerPlantOutput_new_def
      py_round1_def round_half_even_def Let_def)

lemma test_valid: "valid_request test_request"
  by (simp add: valid_request_def valid_fuels_def valid_plant_def test_request_def test_fuels_def
      wind1_def gas1_def tj1_def)

theorem plan_or_load_not_met_witness:
  "valid_request test_request
   \<and> (\<exists>plan. calculate_production_plan test_request = Inr plan
            \<and> \<bar>sum_list (map out_p plan) - load test_request\<bar> \<le> 0.1)"
proof -
  have d: "distinct (map name (powerplants test_request))"
    by (simp add: test_request_def wind1_def gas1_def tj1_def)
  have "\<not> (\<exists>pwcs total.
            build_plants_with_cost test_request (powerplants test_request) = Inr pwcs
          \<and> total = sum_list (map snd (two_pass_spec py_round1 test_request (merit_order pwcs)))
          \<and> calculate_production_plan test_request = Inl (LoadNotMet (load test_request) total)
          \<and> 0.1 < \<bar>total - load test_request\<bar>)"
    by (simp add: test_plan)
  with plan_or_load_not_met [OF test_valid] d test_valid show ?thesis
    by blast
qed

section \<open>Bounds and duplicate names: examples\<close>

lemma low_valid: "valid_request low_request"
  by (simp add: valid_request_def valid_fuels_def valid_plant_def low_request_def odd_fuels_def low_g_def)

lemma low_plan: "calculate_production_plan low_request = Inr [\<lparr>out_name = ''g'', out_p = 21.6\<rparr>]"
  by (simp add: calculate_production_plan_def low_request_def odd_fuels_def low_g_def
      calculate_cost_per_mwh_def get_actual_pmax_def CO2_EMISSIONS_PER_MWH_def
      merit_order_def merit_key_def allocate_power_def first_pass_def first_pass_step_def
      dict_get_def PowerPlantOutput_new_def
      py_round1_def round_half_even_def Let_def)

lemma dup_valid: "valid_request dup_request"
  by (simp add: valid_request_def valid_fuels_def valid_plant_def dup_request_def odd_fuels_def
      dup_a1_def dup_a2_def)

lemma dup_plan:
  "calculate_production_plan dup_request =
     Inr [\<lparr>out_name = ''a'', out_p = 50\<rparr>, \<lparr>out_name = ''a'', out_p = 50\<rparr>]"
  by (simp add: calculate_production_plan_def dup_request_def odd_fuels_def dup_a1_def dup_a2_def
      calculate_cost_per_mwh_def get_actual_pmax_def CO2_EMISSIONS_PER_MWH_def
      merit_order_def merit_key_def allocate_power_def first_pass_def first_pass_step_def
      dict_get_def PowerPlantOutput_new_def
      py_round1_def round_half_even_def Let_def)

text \<open>
  C2 as stated fails: a single gas plant with Pmin 21.64 and Pmax 100, asked for a load of
  21.64, is assigned round(21.64, 1) = 21.6, which is neither 0 nor at least Pmin; the
  difference to the load is within the tolerance, so the plan is returned.
\<close>

theorem bounds_counterexample:
  "valid_request low_request
   \<and> powerplants low_request = [low_g]
   \<and> calculate_production_plan low_request = Inr [\<lparr>out_name = ''g'', out_p = 21.6\<rparr>]
   \<and> \<not> within_bounds low_request low_g 21.6
   \<and> 0 < (21.6 :: real) \<and> 21.6 < pmin low_g"
  by (simp add: low_valid low_plan within_bounds_def) (simp add: low_request_def low_g_def)

section \<open>Duplicate names\<close>

lemma calculate_production_plan_Inr:
  assumes "valid_request self" and "calculate_production_plan self = Inr plan"
  obtains pwcs al where "build_plants_with_cost self (powerplants self) = Inr pwcs"
    and "allocate_power self (merit_order pwcs) = Inr al"
    and "plan = map (\<lambda>pl. \<lparr>out_name = name pl, out_p = dict_get al (name pl) 0\<rparr>) (powerplants self)"
proof -
  have "list_all valid_plant (powerplants self)"
    using assms(1) by (simp add: valid_request_def)
  then obtain pwcs where b: "build_plants_with_cost self (powerplants self) = Inr pwcs"
    using build_plants_with_cost_valid [of "powerplants self" self] by blast
  show ?thesis
  proof (cases "allocate_power self (merit_order pwcs)")
    case (Inl e)
    then have "calculate_production_plan self = Inl e"
      by (simp add: calculate_production_plan_def b)
    with assms(2) show ?thesis by simp
  next
    case (Inr al)
    have "calculate_production_plan self =
           Inr (map (\<lambda>pl. \<lparr>out_name = name pl, out_p = dict_get al (name pl) 0\<rparr>) (powerplants self))"
      using assms(1) b Inr by (rule calculate_production_plan_valid)
    with assms(2) have "plan = map (\<lambda>pl. \<lparr>out_name = name pl, out_p = dict_get al (name pl) 0\<rparr>) (powerplants self)"
      by simp
    with b Inr show ?thesis by (rule that)
  qed
qed

text \<open>
  C9. The allocation is keyed by name: whenever a plan is returned, the allocation it was
  built from has one entry per distinct plant name (so fewer entries than plants when two
  plants share a name), the conservation check sums exactly these entries, and every
  output of the plan is the allocation's value for its name, so outputs with the same
  name are equal. In the first pass the last plant in merit order that carries a name
  writes the value that the name keeps.
\<close>

theorem duplicate_names_collapse:
  assumes "valid_request self" and "calculate_production_plan self = Inr plan"
  shows "(\<exists>pwcs al.
            build_plants_with_cost self (powerplants self) = Inr pwcs
          \<and> allocate_power self (merit_order pwcs) = Inr al
          \<and> distinct (map fst al)
          \<and> fst ` set al = name ` set (powerplants self)
          \<and> length al = card (name ` set (powerplants self))
          \<and> \<bar>sum_list (map snd al) - load self\<bar> \<le> 0.1
          \<and> plan = map (\<lambda>pl. \<lparr>out_name = name pl, out_p = dict_get al (name pl) 0\<rparr>) (powerplants self))
       \<and> (\<forall>o1 \<in> set plan. \<forall>o2 \<in> set plan. out_name o1 = out_name o2 \<longrightarrow> out_p o1 = out_p o2)
       \<and> (\<forall>xs pwc ys. name (plant pwc) \<notin> (\<lambda>q. name (plant q)) ` set ys \<longrightarrow>
             map_of (fst (first_pass self (xs @ pwc # ys))) (name (plant pwc))
               = Some (greedy_assigned (snd (first_pass self xs)) pwc))"
proof -
  from assms obtain pwcs al where b: "build_plants_with_cost self (powerplants self) = Inr pwcs"
    and a: "allocate_power self (merit_order pwcs) = Inr al"
    and p: "plan = map (\<lambda>pl. \<lparr>out_name = name pl, out_p = dict_get al (name pl) 0\<rparr>) (powerplants self)"
    by (rule calculate_production_plan_Inr)
  note fin = final_allocation [OF assms(1) b a]
  have "length al = length (map fst al)"
    by simp
  also have "\<dots> = card (set (map fst al))"
    using fin(2) by (rule distinct_card [symmetric])
  also have "\<dots> = card (name ` set (powerplants self))"
    using fin(3) by simp
  finally have len: "length al = card (name ` set (powerplants self))" .
  have same: "\<forall>o1 \<in> set plan. \<forall>o2 \<in> set plan. out_name o1 = out_name o2 \<longrightarrow> out_p o1 = out_p o2"
    unfolding p by auto
  have last: "\<forall>xs pwc ys. name (plant pwc) \<notin> (\<lambda>q. name (plant q)) ` set ys \<longrightarrow>
             map_of (fst (first_pass self (xs @ pwc # ys))) (name (plant pwc))
               = Some (greedy_assigned (snd (first_pass self xs)) pwc)"
    using first_pass_last_writer by blast
  show ?thesis
    using b a fin(1,2,3) len p same last by blast
qed

theorem duplicate_names_collapse_witness:
  "valid_request dup_request
   \<and> map name (powerplants dup_request) = [''a'', ''a'']
   \<and> calculate_production_plan dup_request
        = Inr [\<lparr>out_name = ''a'', out_p = 50\<rparr>, \<lparr>out_name = ''a'', out_p = 50\<rparr>]
   \<and> (\<exists>al :: allocation. length al = 1 \<and> \<bar>sum_list (map snd al) - load dup_request\<bar> \<le> 0.1)
   \<and> sum_list (map out_p [\<lparr>out_name = ''a'', out_p = 50\<rparr>, \<lparr>out_name = ''a'', out_p = 50\<rparr>]) = 100
   \<and> load dup_request = 50"
proof -
  have c: "card (name ` set (powerplants dup_request)) = 1"
    by (simp add: dup_request_def dup_a1_def dup_a2_def)
  note col = duplicate_names_collapse [OF dup_valid dup_plan, THEN conjunct1]
  then obtain al :: allocation where "length al = card (name ` set (powerplants dup_request))"
    and "\<bar>sum_list (map snd al) - load dup_request\<bar> \<le> 0.1"
    by blast
  then have "\<exists>al :: allocation. length al = 1 \<and> \<bar>sum_list (map snd al) - load dup_request\<bar> \<le> 0.1"
    unfolding c by blast
  then show ?thesis
    using dup_valid dup_plan by (simp add: dup_request_def dup_a1_def dup_a2_def)
qed

section \<open>Bounds on the outputs\<close>

lemma greedy_assigned_bounds:
  "rounded_bounds (pmin (plant pwc)) (actual_pmax pwc) (greedy_assigned r pwc)"
proof (cases "r \<le> 0.1 \<or> \<not> pmin (plant pwc) \<le> min (actual_pmax pwc) r")
  case True
  then have "greedy_assigned r pwc = 0"
    by (auto simp: greedy_assigned_def)
  then show ?thesis by (simp add: rounded_bounds_def)
next
  case False
  then have a: "greedy_assigned r pwc = py_round1 (min (actual_pmax pwc) r)"
    and lo: "pmin (plant pwc) \<le> min (actual_pmax pwc) r"
    by (auto simp: greedy_assigned_def)
  have hi: "min (actual_pmax pwc) r \<le> actual_pmax pwc"
    by simp
  show ?thesis
    unfolding a rounded_bounds_def
    using py_round1_mono [OF lo] py_round1_mono [OF hi] by blast
qed

lemma first_pass_bounds:
  assumes "distinct (map (\<lambda>q. name (plant q)) ps)" and "pwc \<in> set ps"
  shows "\<exists>v. map_of (fst (foldl first_pass_step (al, r) ps)) (name (plant pwc)) = Some v
             \<and> rounded_bounds (pmin (plant pwc)) (actual_pmax pwc) v"
  using assms
proof (induction ps arbitrary: al r)
  case Nil
  then show ?case by simp
next
  case (Cons q ps)
  let ?al = "AList.update (name (plant q)) (greedy_assigned r q) al"
  let ?r = "r - greedy_assigned r q"
  have step: "foldl first_pass_step (al, r) (q # ps) = foldl first_pass_step (?al, ?r) ps"
    by (simp add: first_pass_step_assigned)
  from Cons.prems(1) have notin: "name (plant q) \<notin> (\<lambda>q. name (plant q)) ` set ps"
    and d: "distinct (map (\<lambda>q. name (plant q)) ps)"
    by simp_all
  show ?case
  proof (cases "pwc = q")
    case True
    have "map_of (fst (foldl first_pass_step (?al, ?r) ps)) (name (plant q)) = map_of ?al (name (plant q))"
      using notin by (rule first_pass_untouched)
    then have "map_of (fst (foldl first_pass_step (al, r) (q # ps))) (name (plant q))
                 = Some (greedy_assigned r q)"
      unfolding step by (simp add: update_conv')
    with True greedy_assigned_bounds [of q r] show ?thesis by blast
  next
    case False
    with Cons.prems(2) have "pwc \<in> set ps" by simp
    with d show ?thesis
      unfolding step by (rule Cons.IH)
  qed
qed

lemma adjust_loop_bounds:
  assumes "adjust_loop qs al R = Inr al'"
    and "\<forall>k v. map_of al k = Some v \<longrightarrow> py_round1 v = v"
    and "\<forall>q \<in> set qs. name (plant q) = name (plant p0) \<longrightarrow> q = p0"
    and "pmin (plant p0) \<le> actual_pmax p0"
    and "map_of al (name (plant p0)) = Some v"
    and "rounded_bounds (pmin (plant p0)) (actual_pmax p0) v"
  shows "\<exists>v'. map_of al' (name (plant p0)) = Some v'
              \<and> rounded_bounds (pmin (plant p0)) (actual_pmax p0) v'"
  using assms
proof (induction qs arbitrary: al R v)
  case Nil
  then show ?case by simp
next
  case (Cons pwc qs)
  let ?n = "name (plant pwc)"
  let ?B = "rounded_bounds (pmin (plant p0)) (actual_pmax p0)"
  have only: "\<forall>q \<in> set qs. name (plant q) = name (plant p0) \<longrightarrow> q = p0"
    using Cons.prems(3) by simp
  have same: "pwc = p0" if "?n = name (plant p0)"
    using Cons.prems(3) that by simp
  have upd: ?case
    if run: "adjust_loop qs (AList.update ?n (py_round1 x) al) R' = Inr al'"
      and b: "?n = name (plant p0) \<Longrightarrow> ?B (py_round1 x)"
    for x R'
  proof -
    have t: "\<forall>k w. map_of (AList.update ?n (py_round1 x) al) k = Some w \<longrightarrow> py_round1 w = w"
      using Cons.prems(2) by (simp add: update_conv' py_round1_idem)
    show ?thesis
    proof (cases "?n = name (plant p0)")
      case True
      have m: "map_of (AList.update ?n (py_round1 x) al) (name (plant p0)) = Some (py_round1 x)"
        using True by (simp add: update_conv')
      show ?thesis
        using run t only Cons.prems(4) m b [OF True] by (rule Cons.IH)
    next
      case False
      then have m: "map_of (AList.update ?n (py_round1 x) al) (name (plant p0)) = Some v"
        using Cons.prems(5) by (simp add: update_conv')
      show ?thesis
        using run t only Cons.prems(4) m Cons.prems(6) by (rule Cons.IH)
    qed
  qed
  from Cons.prems(1) show ?case
  proof (cases rule: adjust_loop_cases)
    case break
    with Cons.prems(5,6) show ?thesis by blast
  next
    case (topup cur)
    let ?x = "cur + min (actual_pmax pwc - cur) R"
    have "?B (py_round1 ?x)" if n: "?n = name (plant p0)"
    proof -
      have p: "pwc = p0" using n by (rule same)
      have cv: "cur = v"
        using topup(1) Cons.prems(5) n by simp
      have curt: "py_round1 cur = cur"
        using Cons.prems(2) topup(1) by blast
      have "cur \<le> ?x"
        using topup(2,3,4) by simp
      then have "cur \<le> py_round1 ?x"
        using py_round1_mono [of cur ?x] curt by simp
      moreover have "py_round1 (pmin (plant p0)) \<le> cur"
        using Cons.prems(6) topup(3) cv by (simp add: rounded_bounds_def)
      moreover have "?x \<le> actual_pmax p0"
        using p by simp
      then have "py_round1 ?x \<le> py_round1 (actual_pmax p0)"
        by (rule py_round1_mono)
      ultimately show ?thesis
        by (simp add: rounded_bounds_def)
    qed
    with topup(5) show ?thesis by (rule upd)
  next
    case start
    let ?x = "min R (actual_pmax pwc)"
    have "?B (py_round1 ?x)" if n: "?n = name (plant p0)"
    proof -
      have p: "pwc = p0" using n by (rule same)
      have "pmin (plant p0) \<le> ?x"
        using start(3) Cons.prems(4) p by simp
      then have "py_round1 (pmin (plant p0)) \<le> py_round1 ?x"
        by (rule py_round1_mono)
      moreover have "?x \<le> actual_pmax p0"
        using p by simp
      then have "py_round1 ?x \<le> py_round1 (actual_pmax p0)"
        by (rule py_round1_mono)
      ultimately show ?thesis
        by (simp add: rounded_bounds_def)
    qed
    with start(4) show ?thesis by (rule upd)
  next
    case (skip cur)
    show ?thesis
      using skip(2) Cons.prems(2) only Cons.prems(4,5,6) by (rule Cons.IH)
  qed
qed

lemma ranked_names_distinct:
  assumes "build_plants_with_cost self (powerplants self) = Inr pwcs"
    and "distinct (map name (powerplants self))"
  shows "distinct (map (\<lambda>q. name (plant q)) (merit_order pwcs))"
proof -
  have "map name (map plant pwcs) = map name (powerplants self)"
    using build_plants_with_cost_props [OF assms(1)] by simp
  then have "distinct (map (\<lambda>q. name (plant q)) pwcs)"
    using assms(2) by (simp add: comp_def)
  then have "distinct pwcs \<and> inj_on (\<lambda>q. name (plant q)) (set pwcs)"
    by (simp add: distinct_map)
  then show ?thesis
    by (simp add: distinct_map merit_order_def)
qed

lemma ranked_plant:
  assumes "build_plants_with_cost self (powerplants self) = Inr pwcs"
    and "pl \<in> set (powerplants self)"
  obtains p0 where "p0 \<in> set (merit_order pwcs)" and "plant p0 = pl"
    and "actual_pmax p0 = get_actual_pmax self pl"
proof -
  note props = build_plants_with_cost_props [OF assms(1)]
  have "pl \<in> set (map plant pwcs)"
    using props assms(2) by simp
  then obtain p0 where p0: "p0 \<in> set pwcs" "plant p0 = pl"
    by auto
  have "actual_pmax p0 = get_actual_pmax self pl"
    using props p0 by blast
  with p0 show ?thesis
    by (intro that [of p0]) (simp_all add: set_merit_order)
qed

text \<open>
  C2 (as amended). For a valid request with pairwise distinct plant names and a returned
  plan, the output of every plant whose Pmin is at most its effective maximum is 0 or lies
  within [round(Pmin, 1), round(effective max, 1)]; the same bounds hold for every plant
  in the allocation that the first pass leaves.
\<close>

theorem outputs_within_rounded_bounds:
  assumes "valid_request self"
    and "distinct (map name (powerplants self))"
    and "calculate_production_plan self = Inr plan"
  shows "list_all2
           (\<lambda>pl out. out_name out = name pl
              \<and> (pmin pl \<le> get_actual_pmax self pl \<longrightarrow>
                   rounded_bounds (pmin pl) (get_actual_pmax self pl) (out_p out)))
           (powerplants self) plan
       \<and> (\<exists>pwcs al0 R.
             build_plants_with_cost self (powerplants self) = Inr pwcs
           \<and> first_pass self (merit_order pwcs) = (al0, R)
           \<and> list_all (\<lambda>pl. rounded_bounds (pmin pl) (get_actual_pmax self pl)
                               (dict_get al0 (name pl) 0)) (powerplants self))"
proof -
  from assms(1,3) obtain pwcs al where b: "build_plants_with_cost self (powerplants self) = Inr pwcs"
    and a: "allocate_power self (merit_order pwcs) = Inr al"
    and p: "plan = map (\<lambda>pl. \<lparr>out_name = name pl, out_p = dict_get al (name pl) 0\<rparr>) (powerplants self)"
    by (rule calculate_production_plan_Inr)
  let ?ps = "merit_order pwcs"
  obtain al0 R where fp: "first_pass self ?ps = (al0, R)"
    by (cases "first_pass self ?ps")
  have fold: "foldl first_pass_step ([], load self) ?ps = (al0, R)"
    using fp by (simp add: first_pass_def)
  have dn: "distinct (map (\<lambda>q. name (plant q)) ?ps)"
    using b assms(2) by (rule ranked_names_distinct)
  have t0: "\<forall>k v. map_of al0 k = Some v \<longrightarrow> py_round1 v = v"
    using fp by (rule first_pass_tenths)
  have greedy: "\<exists>v. map_of al0 (name (plant p0)) = Some v
                   \<and> rounded_bounds (pmin (plant p0)) (actual_pmax p0) v"
    if "p0 \<in> set ?ps" for p0
    using first_pass_bounds [OF dn that, of "[]" "load self"] unfolding fold by simp
  have final: "\<exists>v. map_of al (name (plant p0)) = Some v
                   \<and> rounded_bounds (pmin (plant p0)) (actual_pmax p0) v"
    if p0: "p0 \<in> set ?ps" and ok: "pmin (plant p0) \<le> actual_pmax p0" for p0
  proof (cases "0.1 < \<bar>R\<bar>")
    case False
    then have "al = al0"
      using allocate_power_Inr [OF a fp] by simp
    with greedy [OF p0] show ?thesis by simp
  next
    case True
    then have run: "adjust_loop (rev ?ps) al0 R = Inr al"
      using allocate_power_Inr [OF a fp] by (simp add: adjust_allocation_def)
    have "inj_on (\<lambda>q. name (plant q)) (set ?ps)"
      using dn by (simp add: distinct_map)
    then have only: "\<forall>q \<in> set (rev ?ps). name (plant q) = name (plant p0) \<longrightarrow> q = p0"
      using p0 by (auto dest: inj_onD)
    from greedy [OF p0] obtain v where v: "map_of al0 (name (plant p0)) = Some v"
      "rounded_bounds (pmin (plant p0)) (actual_pmax p0) v"
      by blast
    show ?thesis
      using run t0 only ok v by (rule adjust_loop_bounds)
  qed
  have g: "rounded_bounds (pmin pl) (get_actual_pmax self pl) (dict_get al0 (name pl) 0)"
    if "pl \<in> set (powerplants self)" for pl
  proof -
    from b that obtain p0 where p0: "p0 \<in> set ?ps" "plant p0 = pl"
      "actual_pmax p0 = get_actual_pmax self pl"
      by (rule ranked_plant)
    from greedy [OF p0(1)] obtain v where "map_of al0 (name pl) = Some v"
      "rounded_bounds (pmin pl) (get_actual_pmax self pl) v"
      unfolding p0(2,3) by blast
    then show ?thesis by (simp add: dict_get_def)
  qed
  have f: "rounded_bounds (pmin pl) (get_actual_pmax self pl) (dict_get al (name pl) 0)"
    if "pl \<in> set (powerplants self)" and "pmin pl \<le> get_actual_pmax self pl" for pl
  proof -
    from b that(1) obtain p0 where p0: "p0 \<in> set ?ps" "plant p0 = pl"
      "actual_pmax p0 = get_actual_pmax self pl"
      by (rule ranked_plant)
    have "pmin (plant p0) \<le> actual_pmax p0"
      using that(2) p0 by simp
    from final [OF p0(1) this] obtain v where "map_of al (name pl) = Some v"
      "rounded_bounds (pmin pl) (get_actual_pmax self pl) v"
      unfolding p0(2,3) by blast
    then show ?thesis by (simp add: dict_get_def)
  qed
  have "list_all2
           (\<lambda>pl out. out_name out = name pl
              \<and> (pmin pl \<le> get_actual_pmax self pl \<longrightarrow>
                   rounded_bounds (pmin pl) (get_actual_pmax self pl) (out_p out)))
           (powerplants self) plan"
    unfolding p using f by (simp add: list_all2_map2 list_all2_same)
  moreover have "list_all (\<lambda>pl. rounded_bounds (pmin pl) (get_actual_pmax self pl)
                               (dict_get al0 (name pl) 0)) (powerplants self)"
    using g by (simp add: list_all_iff)
  ultimately show ?thesis
    using b fp by blast
qed

theorem outputs_within_rounded_bounds_witness:
  "valid_request low_request
   \<and> distinct (map name (powerplants low_request))
   \<and> calculate_production_plan low_request = Inr [\<lparr>out_name = ''g'', out_p = 21.6\<rparr>]
   \<and> pmin low_g \<le> get_actual_pmax low_request low_g
   \<and> rounded_bounds (pmin low_g) (get_actual_pmax low_request low_g) 21.6
   \<and> py_round1 (pmin low_g) = 21.6"
proof -
  have d: "distinct (map name (powerplants low_request))"
    by (simp add: low_request_def)
  have ok: "pmin low_g \<le> get_actual_pmax low_request low_g"
    by (simp add: low_g_def get_actual_pmax_def)
  have r: "py_round1 (pmin low_g) = 21.6"
    by (simp add: low_g_def py_round1_def round_half_even_def Let_def)
  have "rounded_bounds (pmin low_g) (get_actual_pmax low_request low_g) 21.6"
    using outputs_within_rounded_bounds [OF low_valid d low_plan] ok
    by (simp add: low_request_def)
  then show ?thesis
    using low_valid d low_plan ok r by simp
qed

section \<open>Wind dominance\<close>

lemma free_valid: "valid_request free_request"
  by (simp add: valid_request_def valid_fuels_def valid_plant_def free_request_def free_fuels_def
      free_wind_def free_gas_def)

lemma free_plan:
  "calculate_production_plan free_request =
     Inr [\<lparr>out_name = ''wind'', out_p = 0\<rparr>, \<lparr>out_name = ''gas'', out_p = 100\<rparr>]"
  by (simp add: calculate_production_plan_def free_request_def free_fuels_def free_wind_def free_gas_def
      calculate_cost_per_mwh_def get_actual_pmax_def CO2_EMISSIONS_PER_MWH_def
      merit_order_def merit_key_def allocate_power_def first_pass_def first_pass_step_def
      dict_get_def PowerPlantOutput_new_def
      py_round1_def round_half_even_def Let_def)

text \<open>
  C8. The claim: when the total wind effective capacity is at most the requested load,
  every wind plant with sufficient effective maximum is allocated its full effective
  maximum before any non-wind plant receives allocation; \<open>test_wind_has_priority\<close> says
  the same of the code ("wind turbines are always used first (cost = 0)"). The code ranks
  by (cost, - effective maximum) and nothing else. At this request gas and CO2 cost 0, so
  the gas plant costs 0 per unit like wind, the tie goes to the larger effective maximum,
  the gas plant (Pmax 100) is ranked first and takes the whole load of 100, and the wind
  plant is returned at 0 although its capacity, 50, is below the load and above its Pmin.
\<close>

theorem wind_left_idle_behind_free_gas:
  "valid_request free_request
   \<and> powerplants free_request = [free_wind, free_gas]
   \<and> type free_wind = WINDTURBINE \<and> type free_gas = GASFIRED
   \<and> wind_capacity free_request \<le> load free_request
   \<and> pmin free_wind \<le> get_actual_pmax free_request free_wind
   \<and> get_actual_pmax free_request free_wind = 50
   \<and> build_plants_with_cost free_request (powerplants free_request) =
        Inr [\<lparr>plant = free_wind, cost_per_mwh = 0, actual_pmax = 50\<rparr>,
             \<lparr>plant = free_gas, cost_per_mwh = 0, actual_pmax = 100\<rparr>]
   \<and> merit_order [\<lparr>plant = free_wind, cost_per_mwh = 0, actual_pmax = 50\<rparr>,
                    \<lparr>plant = free_gas, cost_per_mwh = 0, actual_pmax = 100\<rparr>] =
        [\<lparr>plant = free_gas, cost_per_mwh = 0, actual_pmax = 100\<rparr>,
         \<lparr>plant = free_wind, cost_per_mwh = 0, actual_pmax = 50\<rparr>]
   \<and> calculate_production_plan free_request =
        Inr [\<lparr>out_name = ''wind'', out_p = 0\<rparr>, \<lparr>out_name = ''gas'', out_p = 100\<rparr>]"
proof -
  have b: "build_plants_with_cost free_request (powerplants free_request) =
        Inr [\<lparr>plant = free_wind, cost_per_mwh = 0, actual_pmax = 50\<rparr>,
             \<lparr>plant = free_gas, cost_per_mwh = 0, actual_pmax = 100\<rparr>]"
    by (simp add: free_request_def free_fuels_def free_wind_def free_gas_def
        calculate_cost_per_mwh_def get_actual_pmax_def CO2_EMISSIONS_PER_MWH_def)
  have m: "merit_order [\<lparr>plant = free_wind, cost_per_mwh = 0, actual_pmax = 50\<rparr>,
                    \<lparr>plant = free_gas, cost_per_mwh = 0, actual_pmax = 100\<rparr>] =
        [\<lparr>plant = free_gas, cost_per_mwh = 0, actual_pmax = 100\<rparr>,
         \<lparr>plant = free_wind, cost_per_mwh = 0, actual_pmax = 50\<rparr>]"
    by (simp add: merit_order_def merit_key_def)
  have r: "powerplants free_request = [free_wind, free_gas]"
    "type free_wind = WINDTURBINE" "type free_gas = GASFIRED"
    "wind_capacity free_request \<le> load free_request"
    "pmin free_wind \<le> get_actual_pmax free_request free_wind"
    "get_actual_pmax free_request free_wind = 50"
    by (simp_all add: wind_capacity_def free_request_def free_fuels_def free_wind_def free_gas_def
        get_actual_pmax_def)
  show ?thesis
    using free_valid r b m free_plan by (intro conjI)
qed

end
